theory Spec2Isabelle
  imports Complex_Main "HOL-Library.Multiset"
begin

section \<open>JavaScript values used by the component\<close>

subsection \<open>Numbers\<close>

text \<open>
  A JavaScript number is an IEEE 754 binary64 value. The component only parses, compares,
  subtracts and tests numbers for truthiness, so a finite number is represented by the
  rational it denotes; \<open>-0\<close> and \<open>+0\<close> are one value (none of those operations tells
  them apart). \<open>to_double\<close> rounds a rational to the nearest binary64 value, ties to even,
  with gradual underflow and overflow to infinity; \<open>parseFloat\<close> is taken to round
  correctly, as the engines do, also for literals of more than 20 significant digits.
\<close>

datatype jsnum = NaN | NegInf | Fin rat | PosInf

definition pow2 :: "int \<Rightarrow> rat" where
  "pow2 e = (if 0 \<le> e then 2 ^ nat e else 1 / 2 ^ nat (- e))"

function bit_length :: "int \<Rightarrow> int" where
  \<comment> \<open>the number of binary digits of a positive integer\<close>
  "bit_length n = (if n \<le> 0 then 0 else 1 + bit_length (n div 2))"
  by pat_completeness auto
termination
  by (relation "measure nat") auto

declare bit_length.simps [simp del]

definition ilog2 :: "rat \<Rightarrow> int" where
  \<comment> \<open>for \<open>0 < x\<close>: the exponent \<open>e\<close> with \<open>2^e \<le> x < 2^(e+1)\<close>\<close>
  "ilog2 x =
     (let (a, b) = quotient_of x;
          d = bit_length a - bit_length b
      in if pow2 d \<le> x then d else d - 1)"

definition round_half_even :: "rat \<Rightarrow> int" where
  "round_half_even y =
     (let f = \<lfloor>y\<rfloor>; d = y - of_int f
      in if d < 1 / 2 then f else if 1 / 2 < d then f + 1
         else if even f then f else f + 1)"

definition round_pos :: "rat \<Rightarrow> rat" where
  \<comment> \<open>for \<open>0 < x\<close>: 53 significant bits, the exponent never below \<open>-1022\<close>\<close>
  "round_pos x =
     (let e = max (ilog2 x) (- 1022);
          q = pow2 (e - 52)
      in of_int (round_half_even (x / q)) * q)"

definition to_double :: "rat \<Rightarrow> jsnum" where
  "to_double x =
     (if x = 0 then Fin 0
      else if 0 < x then (let y = round_pos x in if pow2 1024 \<le> y then PosInf else Fin y)
      else (let y = round_pos (- x) in if pow2 1024 \<le> y then NegInf else Fin (- y)))"

fun js_gt :: "jsnum \<Rightarrow> jsnum \<Rightarrow> bool" where
  \<comment> \<open>\<open>a > b\<close>; any comparison with \<open>NaN\<close> is false\<close>
  "js_gt NaN b = False"
| "js_gt a NaN = False"
| "js_gt NegInf b = False"
| "js_gt a NegInf = True"
| "js_gt a PosInf = False"
| "js_gt PosInf b = True"
| "js_gt (Fin x) (Fin y) = (y < x)"

fun js_le :: "jsnum \<Rightarrow> jsnum \<Rightarrow> bool" where
  \<comment> \<open>\<open>a <= b\<close>\<close>
  "js_le NaN b = False"
| "js_le a NaN = False"
| "js_le NegInf b = True"
| "js_le a NegInf = False"
| "js_le a PosInf = True"
| "js_le PosInf b = False"
| "js_le (Fin x) (Fin y) = (x \<le> y)"

fun js_sub :: "jsnum \<Rightarrow> jsnum \<Rightarrow> jsnum" where
  \<comment> \<open>\<open>a - b\<close>: the exact difference, rounded; \<open>Infinity - Infinity\<close> is \<open>NaN\<close>\<close>
  "js_sub NaN b = NaN"
| "js_sub a NaN = NaN"
| "js_sub (Fin x) (Fin y) = to_double (x - y)"
| "js_sub (Fin x) PosInf = NegInf"
| "js_sub (Fin x) NegInf = PosInf"
| "js_sub PosInf PosInf = NaN"
| "js_sub PosInf b = PosInf"
| "js_sub NegInf NegInf = NaN"
| "js_sub NegInf b = NegInf"

definition or_zero :: "jsnum \<Rightarrow> jsnum" where
  \<comment> \<open>\<open>x || 0\<close>: the falsy numbers are \<open>NaN\<close>, \<open>+0\<close> and \<open>-0\<close>\<close>
  "or_zero x = (if x = NaN \<or> x = Fin 0 then Fin 0 else x)"

subsection \<open>Strings\<close>

text \<open>
  A JavaScript string is a sequence of UTF-16 code units. The model is \<open>string\<close>, read as
  the code units \<open>0\<close> to \<open>255\<close> (Latin-1, which holds the Spanish texts of the catalogue
  and is closed under \<open>toLowerCase\<close>). A string is truthy iff it is not empty.
\<close>

definition is_digit :: "char \<Rightarrow> bool" where
  \<comment> \<open>\<open>\d\<close> and \<open>DecimalDigit\<close>\<close>
  "is_digit c = (48 \<le> (of_char c :: nat) \<and> (of_char c :: nat) \<le> 57)"

definition is_space :: "char \<Rightarrow> bool" where
  \<comment> \<open>\<open>\s\<close>, and the characters \<open>trim\<close> and \<open>parseFloat\<close> strip: TAB, LF, VT, FF, CR,
      SP and NBSP are the ones below 256\<close>
  "is_space c = (of_char c \<in> {9, 10, 11, 12, 13, 32, 160 :: nat})"

definition digit_val :: "char \<Rightarrow> int" where
  "digit_val c = of_char c - 48"

definition digits_val :: "string \<Rightarrow> int" where
  \<comment> \<open>the value of a run of decimal digits; \<open>0\<close> for the empty run\<close>
  "digits_val ds = foldl (\<lambda>n c. 10 * n + digit_val c) 0 ds"

definition toLowerCase :: "string \<Rightarrow> string" where
  \<comment> \<open>\<open>A\<close>-\<open>Z\<close> and the Latin-1 capitals \<open>0xC0\<close>-\<open>0xDE\<close> (not the sign \<open>0xD7\<close>) move up by 32\<close>
  "toLowerCase s =
     map (\<lambda>c. let n = of_char c :: nat
              in if (65 \<le> n \<and> n \<le> 90) \<or> (192 \<le> n \<and> n \<le> 222 \<and> n \<noteq> 215)
                 then char_of (n + 32) else c) s"

fun str_includes :: "string \<Rightarrow> string \<Rightarrow> bool" where
  \<comment> \<open>\<open>s.includes(t)\<close>: \<open>t\<close> occurs in \<open>s\<close> as a contiguous substring\<close>
  "str_includes [] t = (t = [])"
| "str_includes (c # s) t = (take (length t) (c # s) = t \<or> str_includes s t)"

definition trim :: "string \<Rightarrow> string" where
  "trim s = rev (dropWhile is_space (rev (dropWhile is_space s)))"

fun replace_currency :: "string \<Rightarrow> string" where
  \<comment> \<open>\<open>s.replace(/S\/\s*/, '')\<close>: the leftmost \<open>S/\<close> and the whitespace run after it are
      removed; a string without \<open>S/\<close> is returned as it is\<close>
  "replace_currency [] = []"
| "replace_currency (c # s) =
     (if c = CHR ''S'' \<and> take 1 s = ''/'' then dropWhile is_space (drop 1 s)
      else c # replace_currency s)"

definition match_number_at :: "string \<Rightarrow> string option" where
  \<comment> \<open>\<open>/\d+(\.\d+)?/\<close> tried at the start of \<open>s\<close>: a greedy digit run, then greedily a
      dot with a digit run\<close>
  "match_number_at s =
     (let ds = takeWhile is_digit s; r = dropWhile is_digit s
      in if ds = [] then None
         else if take 1 r = ''.'' \<and> takeWhile is_digit (drop 1 r) \<noteq> []
         then Some (ds @ ''.'' @ takeWhile is_digit (drop 1 r))
         else Some ds)"

fun match_number :: "string \<Rightarrow> string option" where
  \<comment> \<open>\<open>s.match(/\d+(\.\d+)?/)\<close>: the text of the leftmost match, or \<open>None\<close> for \<open>null\<close>\<close>
  "match_number [] = None"
| "match_number (c # s) =
     (case match_number_at (c # s) of Some m \<Rightarrow> Some m | None \<Rightarrow> match_number s)"

subsection \<open>parseFloat\<close>

definition parse_exponent :: "string \<Rightarrow> int" where
  \<comment> \<open>the optional \<open>ExponentPart\<close> at the start of \<open>r\<close>: \<open>e\<close> or \<open>E\<close>, an optional sign,
      at least one digit; \<open>0\<close> when there is none\<close>
  "parse_exponent r =
     (if take 1 r = ''e'' \<or> take 1 r = ''E'' then
        (let r1 = drop 1 r in
         if take 1 r1 = ''-'' then
           (if takeWhile is_digit (drop 1 r1) = [] then 0
            else - (digits_val (takeWhile is_digit (drop 1 r1))))
         else if take 1 r1 = ''+'' then (digits_val (takeWhile is_digit (drop 1 r1)))
         else (digits_val (takeWhile is_digit r1)))
      else 0)"

definition parse_unsigned :: "string \<Rightarrow> rat option" where
  \<comment> \<open>the mathematical value of the longest prefix that is a decimal
      \<open>StrUnsignedDecimalLiteral\<close>: digits, optional dot and digits, optional exponent;
      or a dot and digits\<close>
  "parse_unsigned r =
     (let ip = takeWhile is_digit r; r1 = dropWhile is_digit r;
          dot = (take 1 r1 = ''.'');
          fp = (if dot then takeWhile is_digit (drop 1 r1) else []);
          r2 = (if dot then dropWhile is_digit (drop 1 r1) else r1)
      in if ip = [] \<and> fp = [] then None
         else Some (of_int (digits_val (ip @ fp))
                    * (if int (length fp) \<le> parse_exponent r2
                       then 10 ^ nat (parse_exponent r2 - int (length fp))
                       else 1 / 10 ^ nat (int (length fp) - parse_exponent r2))))"

definition parse_literal :: "bool \<Rightarrow> string \<Rightarrow> jsnum" where
  "parse_literal neg r =
     (if take 8 r = ''Infinity'' then (if neg then NegInf else PosInf)
      else case parse_unsigned r of
             None \<Rightarrow> NaN
           | Some v \<Rightarrow> to_double (if neg then - v else v))"

definition parseFloat :: "string \<Rightarrow> jsnum" where
  \<comment> \<open>leading whitespace is skipped, then the longest prefix that is a
      \<open>StrDecimalLiteral\<close> is read; \<open>NaN\<close> when there is none\<close>
  "parseFloat s =
     (let t = dropWhile is_space s
      in if take 1 t = ''-'' then parse_literal True (drop 1 t)
         else if take 1 t = ''+'' then parse_literal False (drop 1 t)
         else parse_literal False t)"

section \<open>The product and the component state\<close>

record Producto =
  Producto :: string
  Precio_Oferta :: string
  Precio_Regular :: string
  Imagen_URL :: string
  Enlace :: string
  Farmacia :: string

text \<open>
  The \<open>useState\<close> cells of \<open>App\<close>. \<open>productos\<close> is typed \<open>Producto[]\<close>, but
  \<open>response.data\<close> is \<open>any\<close>, so \<open>undefined\<close> can be stored in it: \<open>None\<close> stands for
  \<open>undefined\<close>.
\<close>

record app_state =
  keyword :: string
  productos :: "Producto list option"
  isLoading :: bool
  error :: "string option"
  nameFilter :: string
  pharmacyFilter :: string
  priceFilter :: jsnum
  offersFilter :: bool

definition initial_state :: app_state where
  "initial_state =
     \<lparr>keyword = ''jabon'', productos = Some [], isLoading = False, error = None,
      nameFilter = [], pharmacyFilter = [], priceFilter = Fin 300, offersFilter = False\<rparr>"

datatype js_error = TypeError

section \<open>getFilteredProducts\<close>

definition price_replace :: "string \<Rightarrow> jsnum" where
  \<comment> \<open>\<open>parseFloat(x.replace(/S\/\s*/, '')) || 0\<close>: the filter of src/App.tsx and the sort
      comparator of both files\<close>
  "price_replace x = or_zero (parseFloat (replace_currency x))"

definition price_match :: "string \<Rightarrow> jsnum" where
  \<comment> \<open>\<open>priceMatch ? parseFloat(priceMatch[0]) : 0\<close> with
      \<open>priceMatch = x.match(/\d+(\.\d+)?/)\<close>: the filter of part_000\<close>
  "price_match x = (case match_number x of Some m \<Rightarrow> parseFloat m | None \<Rightarrow> Fin 0)"

definition hasOffer :: "Producto \<Rightarrow> bool" where
  "hasOffer product = (Precio_Regular product \<noteq> ''No disponible'')"

definition filter_callback :: "(string \<Rightarrow> jsnum) \<Rightarrow> app_state \<Rightarrow> Producto \<Rightarrow> bool" where
  \<comment> \<open>the arrow function given to \<open>filter\<close>; \<open>price_of\<close> is the one line in which the two
      files differ\<close>
  "filter_callback price_of st product =
     (let price = price_of (Precio_Oferta product) in
      if nameFilter st \<noteq> []
         \<and> \<not> str_includes (toLowerCase (Producto product)) (toLowerCase (nameFilter st))
      then False
      else if pharmacyFilter st \<noteq> [] \<and> Farmacia product \<noteq> pharmacyFilter st then False
      else if js_gt price (priceFilter st) then False
      else if offersFilter st \<and> \<not> hasOffer product then False
      else True)"

definition sort_callback :: "Producto \<Rightarrow> Producto \<Rightarrow> jsnum" where
  \<comment> \<open>the comparator given to \<open>sort\<close>, the same in both files\<close>
  "sort_callback a b =
     (let priceA = price_replace (Precio_Oferta a);
          priceB = price_replace (Precio_Oferta b)
      in js_sub priceA priceB)"

text \<open>
  \<open>Array.prototype.sort\<close> is stable, and a comparator result of \<open>NaN\<close> counts as \<open>+0\<close>.
  For a consistent comparator the result is the one order that is ascending and stable,
  whatever algorithm the engine runs; the model is the stable insertion sort.
\<close>

fun sort_insert :: "('a \<Rightarrow> 'a \<Rightarrow> jsnum) \<Rightarrow> 'a \<Rightarrow> 'a list \<Rightarrow> 'a list" where
  "sort_insert cmp x [] = [x]"
| "sort_insert cmp x (y # ys) =
     (if js_gt (cmp x y) (Fin 0) then y # sort_insert cmp x ys else x # y # ys)"

definition array_sort :: "('a \<Rightarrow> 'a \<Rightarrow> jsnum) \<Rightarrow> 'a list \<Rightarrow> 'a list" where
  "array_sort cmp xs = foldr (sort_insert cmp) xs []"

definition getFilteredProducts_App :: "app_state \<Rightarrow> js_error + Producto list" where
  \<comment> \<open>src/App.tsx; reading \<open>filter\<close> of \<open>undefined\<close> throws\<close>
  "getFilteredProducts_App st =
     (case productos st of
        None \<Rightarrow> Inl TypeError
      | Some ps \<Rightarrow> Inr (array_sort sort_callback (filter (filter_callback price_replace st) ps)))"

definition getFilteredProducts_part000 :: "app_state \<Rightarrow> js_error + Producto list" where
  \<comment> \<open>part_000\<close>
  "getFilteredProducts_part000 st =
     (case productos st of
        None \<Rightarrow> Inl TypeError
      | Some ps \<Rightarrow> Inr (array_sort sort_callback (filter (filter_callback price_match st) ps)))"

subsection \<open>The same function over a store of arrays\<close>

text \<open>
  \<open>filter\<close> returns a new array and \<open>sort\<close> sorts its receiver in place. A store is the
  list of the arrays allocated so far, an address is an index into it; the products in
  an array are values, since neither callback writes to a product.
\<close>

type_synonym store = "Producto list list"

definition array_filter_ref ::
  "(Producto \<Rightarrow> bool) \<Rightarrow> nat \<Rightarrow> store \<Rightarrow> (nat \<times> store) option" where
  "array_filter_ref f a s =
     (if a < length s then Some (length s, s @ [filter f (s ! a)]) else None)"

definition array_sort_ref ::
  "(Producto \<Rightarrow> Producto \<Rightarrow> jsnum) \<Rightarrow> nat \<Rightarrow> store \<Rightarrow> (nat \<times> store) option" where
  "array_sort_ref cmp a s =
     (if a < length s then Some (a, s[a := array_sort cmp (s ! a)]) else None)"

definition getFilteredProducts_ref ::
  "(string \<Rightarrow> jsnum) \<Rightarrow> app_state \<Rightarrow> nat \<Rightarrow> store \<Rightarrow> (nat \<times> store) option" where
  \<comment> \<open>\<open>a\<close> is the address held by \<open>productos\<close>; the result is the address returned\<close>
  "getFilteredProducts_ref price_of st a s =
     (case array_filter_ref (filter_callback price_of st) a s of
        None \<Rightarrow> None
      | Some (b, s1) \<Rightarrow> array_sort_ref sort_callback b s1)"

section \<open>handleSubmit\<close>

text \<open>
  \<open>handleSubmit\<close> runs up to its \<open>await\<close>, the request settles, and the rest of the
  function runs. \<open>handleSubmit_start\<close> is the first part, with the effect it has on the
  outside; \<open>handleSubmit_settle\<close> is the second part, given how the request settled.
  The state updates of one part are batched by React into one new state.
\<close>

definition API_URL_App :: string where
  "API_URL_App = ''https://zona-medicamentos-scraper-back.onrender.com''"

definition API_URL_part000 :: string where
  "API_URL_part000 = ''https://zona-medicamentos-scraper-back-production.up.railway.app/''"

definition digit_char :: "nat \<Rightarrow> char" where
  \<comment> \<open>the digit of a value below 16; percent escapes use the capital letters\<close>
  "digit_char n = ''0123456789ABCDEF'' ! n"

definition percent :: "nat \<Rightarrow> string" where
  "percent b = [CHR ''%'', digit_char (b div 16), digit_char (b mod 16)]"

definition uri_unreserved :: "char \<Rightarrow> bool" where
  "uri_unreserved c =
     (let n = of_char c :: nat
      in (65 \<le> n \<and> n \<le> 90) \<or> (97 \<le> n \<and> n \<le> 122) \<or> (48 \<le> n \<and> n \<le> 57)
         \<or> c \<in> set ''-_.!~*'()'')"

definition encodeURIComponent :: "string \<Rightarrow> string" where
  \<comment> \<open>every other code unit becomes the percent-escaped bytes of its UTF-8 encoding\<close>
  "encodeURIComponent s =
     concat (map (\<lambda>c. let n = of_char c :: nat
                      in if uri_unreserved c then [c]
                         else if n < 128 then percent n
                         else percent (192 + n div 64) @ percent (128 + n mod 64)) s)"

datatype effect =
    Alert string
  | AxiosGet string nat  \<comment> \<open>the URL and the timeout in milliseconds\<close>

text \<open>
  How \<open>axios.get\<close> settles. It resolves on a status from 200 to 299; the body is an
  object, of which only the field \<open>data\<close> is read: \<open>None\<close> when the field is missing,
  the array otherwise. It rejects with an error whose \<open>code\<close> is \<open>ECONNABORTED\<close> after
  the timeout, and whose \<open>response\<close> is present (with its \<open>status\<close>) when the server
  answered with another status.
\<close>

datatype axios_result =
    Resolved "Producto list option"
  | Rejected "string option" "nat option"

function show_nat :: "nat \<Rightarrow> string" where
  \<comment> \<open>a number in a template literal: its decimal digits\<close>
  "show_nat n = (if n < 10 then [digit_char n]
                 else show_nat (n div 10) @ [digit_char (n mod 10)])"
  by pat_completeness auto
termination
  by (relation "measure id") auto

declare show_nat.simps [simp del]

definition alert_message :: string where
  "alert_message =
     ''Por favor, ingresa un t'' @ [CHR 0xE9] @ ''rmino de b'' @ [CHR 0xFA] @ ''squeda.''"

subsection \<open>src/App.tsx\<close>

definition handleSubmit_start_App :: "app_state \<Rightarrow> effect \<times> app_state" where
  "handleSubmit_start_App st =
     (if keyword st = [] then (Alert alert_message, st)
      else (AxiosGet (API_URL_App @ ''/buscar_productos?keyword=''
                        @ encodeURIComponent (keyword st)) 300000,
            st\<lparr>isLoading := True, productos := Some [], error := None\<rparr>))"

definition handleSubmit_settle_App :: "axios_result \<Rightarrow> app_state \<Rightarrow> app_state" where
  "handleSubmit_settle_App r st =
     (case r of
        Resolved d \<Rightarrow> st\<lparr>productos := d, isLoading := False\<rparr>
      | Rejected code response \<Rightarrow>
          st\<lparr>error := Some
                (if code = Some ''ECONNABORTED''
                 then ''La b'' @ [CHR 0xFA] @ ''squeda tard'' @ [CHR 0xF3]
                      @ '' demasiado y fue cancelada. Intenta de nuevo.''
                 else ''Error al cargar los datos. Revisa la consola.''),
             isLoading := False\<rparr>)"

subsection \<open>part_000\<close>

definition handleSubmit_start_part000 :: "app_state \<Rightarrow> effect \<times> app_state" where
  "handleSubmit_start_part000 st =
     (if trim (keyword st) = [] then (Alert alert_message, st)
      else (AxiosGet (API_URL_part000 @ ''/buscar_productos?keyword=''
                        @ encodeURIComponent
                            (if trim (keyword st) \<noteq> [] then trim (keyword st) else ''jabon''))
                     300000,
            st\<lparr>isLoading := True, productos := Some [], error := None\<rparr>))"

definition handleSubmit_settle_part000 :: "axios_result \<Rightarrow> app_state \<Rightarrow> app_state" where
  "handleSubmit_settle_part000 r st =
     (case r of
        Resolved d \<Rightarrow>
          st\<lparr>productos := Some (case d of Some ps \<Rightarrow> ps | None \<Rightarrow> []), isLoading := False\<rparr>
      | Rejected code response \<Rightarrow>
          st\<lparr>error := Some
                (if code = Some ''ECONNABORTED''
                 then ''La b'' @ [CHR 0xFA] @ ''squeda tard'' @ [CHR 0xF3]
                      @ '' demasiado y fue cancelada (Timeout). Intenta de nuevo.''
                 else case response of
                        Some status \<Rightarrow>
                          ''Error del servidor ('' @ show_nat status
                          @ ''). Intenta de nuevo m'' @ [CHR 0xE1] @ ''s tarde.''
                      | None \<Rightarrow>
                          ''No se pudo conectar al backend. El servicio puede estar ''
                          @ ''inactivo o tardando mucho.''),
             isLoading := False\<rparr>)"

subsection \<open>The component over time\<close>

text \<open>
  What can happen to the mounted component: an input changes a cell, the form is
  submitted, or the request in flight settles. The submit button is disabled while
  \<open>isLoading\<close> holds, which also blocks submitting with the Enter key, so \<open>Submit\<close> does
  nothing then. The second component of the state tells whether a request is in flight.
\<close>

datatype event =
    SetKeyword string
  | SetNameFilter string
  | SetPharmacyFilter string
  | SetPriceFilter jsnum
  | SetOffersFilter bool
  | Submit
  | Settle axios_result

fun step ::
  "(app_state \<Rightarrow> effect \<times> app_state) \<Rightarrow> (axios_result \<Rightarrow> app_state \<Rightarrow> app_state)
   \<Rightarrow> app_state \<times> bool \<Rightarrow> event \<Rightarrow> app_state \<times> bool" where
  "step start settle (st, inflight) (SetKeyword v) = (st\<lparr>keyword := v\<rparr>, inflight)"
| "step start settle (st, inflight) (SetNameFilter v) = (st\<lparr>nameFilter := v\<rparr>, inflight)"
| "step start settle (st, inflight) (SetPharmacyFilter v) =
     (st\<lparr>pharmacyFilter := v\<rparr>, inflight)"
| "step start settle (st, inflight) (SetPriceFilter v) = (st\<lparr>priceFilter := v\<rparr>, inflight)"
| "step start settle (st, inflight) (SetOffersFilter v) = (st\<lparr>offersFilter := v\<rparr>, inflight)"
| "step start settle (st, inflight) Submit =
     (if isLoading st then (st, inflight)
      else case start st of
             (Alert m, st') \<Rightarrow> (st', inflight)
           | (AxiosGet url t, st') \<Rightarrow> (st', True))"
| "step start settle (st, inflight) (Settle r) =
     (if inflight then (settle r st, False) else (st, inflight))"

definition run_App :: "event list \<Rightarrow> app_state \<times> bool" where
  "run_App es = foldl (step handleSubmit_start_App handleSubmit_settle_App)
                      (initial_state, False) es"

definition run_part000 :: "event list \<Rightarrow> app_state \<times> bool" where
  "run_part000 es = foldl (step handleSubmit_start_part000 handleSubmit_settle_part000)
                          (initial_state, False) es"

section \<open>Notions of the specification\<close>

definition name_matches :: "string \<Rightarrow> string \<Rightarrow> bool" where
  \<comment> \<open>the name contains the filter text, case-insensitively: at some position of the name
      starts a piece as long as the filter text that equals it up to case\<close>
  "name_matches f name =
     (\<exists>i \<in> {0 .. length name}. toLowerCase (take (length f) (drop i name)) = toLowerCase f)"

definition numeric_token :: "string \<Rightarrow> bool" where
  \<comment> \<open>an integer or a decimal: digits, or digits, a dot and digits\<close>
  "numeric_token t =
     (\<exists>ip fp. ip \<noteq> [] \<and> list_all is_digit ip \<and> list_all is_digit fp
              \<and> (t = ip \<or> (fp \<noteq> [] \<and> t = ip @ ''.'' @ fp)))"

definition first_numeric_token :: "string \<Rightarrow> string \<Rightarrow> bool" where
  \<comment> \<open>\<open>t\<close> starts at the first digit of \<open>s\<close> and is the longest numeric token there\<close>
  "first_numeric_token s t =
     (\<exists>pre post. s = pre @ t @ post \<and> list_all (\<lambda>c. \<not> is_digit c) pre \<and> numeric_token t
                 \<and> (\<forall>u v. u \<noteq> [] \<and> post = u @ v \<longrightarrow> \<not> numeric_token (t @ u)))"

definition token_value :: "string \<Rightarrow> rat" where
  \<comment> \<open>the number that a numeric token denotes\<close>
  "token_value t =
     (let ip = takeWhile is_digit t; fp = drop (Suc (length ip)) t
      in of_int (digits_val ip) + of_int (digits_val fp) / 10 ^ length fp)"

definition step1_price :: "string \<Rightarrow> jsnum \<Rightarrow> bool" where
  \<comment> \<open>the price of step 1: the number of the first numeric token, as a binary64 value, and
      \<open>0\<close> for a text without a numeric token\<close>
  "step1_price x v =
     ((\<exists>t. first_numeric_token x t \<and> v = to_double (token_value t))
      \<or> (\<not> (\<exists>t. first_numeric_token x t) \<and> v = Fin 0))"

definition passes_all_filters :: "app_state \<Rightarrow> Producto \<Rightarrow> bool" where
  \<comment> \<open>a filter is active when its text is not empty, respectively when the box is ticked;
      the price bound is always active and is on the price of step 1\<close>
  "passes_all_filters st p =
     ((nameFilter st \<noteq> [] \<longrightarrow> name_matches (nameFilter st) (Producto p))
      \<and> (pharmacyFilter st \<noteq> [] \<longrightarrow> Farmacia p = pharmacyFilter st)
      \<and> (\<exists>v. step1_price (Precio_Oferta p) v \<and> js_le v (priceFilter st))
      \<and> (offersFilter st \<longrightarrow> Precio_Regular p \<noteq> ''No disponible''))"

definition on_grid :: "rat \<Rightarrow> bool" where
  \<comment> \<open>a multiple of the smallest positive binary64 value\<close>
  "on_grid y = (\<exists>k::int. y = of_int k * pow2 (- 1074))"

subsection \<open>The scenario of the specification\<close>

definition dove :: Producto where
  "dove = \<lparr>Producto = ''Jabon Dove'', Precio_Oferta = ''S/ 15'', Precio_Regular = ''S/ 20'',
           Imagen_URL = ''https://img.example/dove.png'',
           Enlace = ''https://inkafarma.example/dove'', Farmacia = ''Inkafarma''\<rparr>"

definition nivea :: Producto where
  "nivea = \<lparr>Producto = ''Jabon Nivea'', Precio_Oferta = ''S/ 8'',
            Precio_Regular = ''No disponible'',
            Imagen_URL = ''https://img.example/nivea.png'',
            Enlace = ''https://mifarma.example/nivea'', Farmacia = ''Mifarma''\<rparr>"

definition scenario :: app_state where
  "scenario = initial_state\<lparr>productos := Some [dove, nivea], priceFilter := Fin 10\<rparr>"

definition strict_scenario :: app_state where
  \<comment> \<open>the scenario with every filter active\<close>
  "strict_scenario = scenario\<lparr>nameFilter := ''DOVE'', pharmacyFilter := ''Inkafarma'',
                               priceFilter := Fin 15, offersFilter := True\<rparr>"

definition fetch_inv :: "app_state \<times> bool \<Rightarrow> bool" where
  \<comment> \<open>a request is in flight exactly while the loading flag is set, and then the raw
      list is empty\<close>
  "fetch_inv c = (case c of (st, inflight) \<Rightarrow>
       (inflight \<longleftrightarrow> isLoading st) \<and> (isLoading st \<longrightarrow> productos st = Some []))"

definition priced :: "string \<Rightarrow> Producto" where
  \<comment> \<open>a product with the given offer price\<close>
  "priced x = \<lparr>Producto = ''Jabon'', Precio_Oferta = x, Precio_Regular = ''No disponible'',
               Imagen_URL = [], Enlace = x, Farmacia = ''Mifarma''\<rparr>"

definition sort_failing_input :: "Producto list" where
  "sort_failing_input =
     [\<lparr>Producto = ''Jabon A'', Precio_Oferta = ''S/. 30'', Precio_Regular = ''No disponible'',
       Imagen_URL = [], Enlace = ''https://a.example/1'', Farmacia = ''Inkafarma''\<rparr>,
      \<lparr>Producto = ''Jabon B'', Precio_Oferta = ''S/ 10'', Precio_Regular = ''No disponible'',
       Imagen_URL = [], Enlace = ''https://a.example/2'', Farmacia = ''Inkafarma''\<rparr>]"

section \<open>Facts about the sort\<close>

lemma js_gt_iff_not_le: "a \<noteq> NaN \<Longrightarrow> b \<noteq> NaN \<Longrightarrow> js_gt a b \<longleftrightarrow> \<not> js_le a b"
  by (cases a; cases b) auto

lemma js_le_refl: "a \<noteq> NaN \<Longrightarrow> js_le a a"
  by (cases a) auto

lemma js_le_trans: "js_le a b \<Longrightarrow> js_le b c \<Longrightarrow> js_le a c"
  by (cases a; cases b; cases c) auto

lemma js_le_total: "a \<noteq> NaN \<Longrightarrow> b \<noteq> NaN \<Longrightarrow> js_le a b \<or> js_le b a"
  by (cases a; cases b) auto

lemma js_gt_imp_neq: "js_gt a b \<Longrightarrow> a \<noteq> b"
  by (cases a; cases b) auto

lemma mset_sort_insert: "mset (sort_insert cmp x xs) = add_mset x (mset xs)"
  by (induction xs) auto

lemma mset_array_sort: "mset (array_sort cmp xs) = mset xs"
  unfolding array_sort_def by (induction xs) (auto simp: mset_sort_insert)

lemma set_sort_insert: "set (sort_insert cmp x xs) = insert x (set xs)"
  by (induction xs) auto

lemma set_array_sort: "set (array_sort cmp xs) = set xs"
  unfolding array_sort_def by (induction xs) (auto simp: set_sort_insert)

lemma length_array_sort: "length (array_sort cmp xs) = length xs"
  by (metis mset_array_sort size_mset)

lemma array_sort_Cons: "array_sort cmp (x # xs) = sort_insert cmp x (array_sort cmp xs)"
  by (simp add: array_sort_def)

lemma sorted_sort_insert:
  assumes cmp: "\<And>a b. js_gt (cmp a b) (Fin 0) \<longleftrightarrow> js_gt (key a) (key b)"
    and num: "\<And>a. key a \<noteq> NaN"
    and srt: "sorted_wrt (\<lambda>a b. js_le (key a) (key b)) xs"
  shows "sorted_wrt (\<lambda>a b. js_le (key a) (key b)) (sort_insert cmp x xs)"
  using srt
proof (induction xs)
  case Nil
  then show ?case by simp
next
  case (Cons y ys)
  show ?case
  proof (cases "js_gt (key x) (key y)")
    case True
    then have "js_le (key y) (key x)"
      using js_le_total [OF num num, of y x] js_gt_iff_not_le [OF num num, of x y] by blast
    with True Cons show ?thesis
      by (auto simp: cmp set_sort_insert)
  next
    case False
    then have xy: "js_le (key x) (key y)"
      using js_gt_iff_not_le [OF num num, of x y] by blast
    have "\<forall>z\<in>set ys. js_le (key x) (key z)"
      using Cons.prems xy by (auto intro: js_le_trans)
    with False xy Cons.prems show ?thesis
      by (auto simp: cmp)
  qed
qed

lemma sorted_array_sort:
  assumes cmp: "\<And>a b. js_gt (cmp a b) (Fin 0) \<longleftrightarrow> js_gt (key a) (key b)"
    and num: "\<And>a. key a \<noteq> NaN"
  shows "sorted_wrt (\<lambda>a b. js_le (key a) (key b)) (array_sort cmp xs)"
proof (induction xs)
  case Nil
  then show ?case by (simp add: array_sort_def)
next
  case (Cons x xs)
  then show ?case
    unfolding array_sort_Cons by (rule sorted_sort_insert [OF cmp num])
qed

lemma filter_sort_insert:
  assumes cmp: "\<And>a b. js_gt (cmp a b) (Fin 0) \<longleftrightarrow> js_gt (key a) (key b)"
  shows "filter (\<lambda>y. key y = k) (sort_insert cmp x xs)
         = (if key x = k then x # filter (\<lambda>y. key y = k) xs else filter (\<lambda>y. key y = k) xs)"
proof (induction xs)
  case Nil
  then show ?case by simp
next
  case (Cons y ys)
  show ?case
  proof (cases "js_gt (key x) (key y)")
    case True
    then have "key x \<noteq> key y" by (rule js_gt_imp_neq)
    with True Cons show ?thesis by (auto simp: cmp)
  next
    case False
    then show ?thesis by (simp add: cmp)
  qed
qed

lemma array_sort_stable:
  assumes cmp: "\<And>a b. js_gt (cmp a b) (Fin 0) \<longleftrightarrow> js_gt (key a) (key b)"
  shows "filter (\<lambda>y. key y = k) (array_sort cmp xs) = filter (\<lambda>y. key y = k) xs"
proof (induction xs)
  case Nil
  then show ?case by (simp add: array_sort_def)
next
  case (Cons x xs)
  then show ?case
    unfolding array_sort_Cons by (simp add: filter_sort_insert [of cmp key, OF cmp])
qed

section \<open>Facts about rounding to binary64\<close>

lemma pow2_pos: "0 < pow2 e"
  by (simp add: pow2_def)

lemma pow2_eq_powi: "pow2 e = 2 powi e"
  unfolding pow2_def power_int_def by (simp add: inverse_eq_divide power_one_over)

lemma pow2_add: "pow2 (a + b) = pow2 a * pow2 b"
  unfolding pow2_eq_powi by (simp add: power_int_add)


lemma bit_length_bounds:
  "0 < n \<Longrightarrow> 2 ^ nat (bit_length n - 1) \<le> n \<and> n < 2 ^ nat (bit_length n) \<and> 0 < bit_length n"
proof (induction n rule: bit_length.induct)
  case (1 n)
  have bl: "bit_length n = 1 + bit_length (n div 2)"
    using "1.prems" by (simp add: bit_length.simps [of n])
  show ?case
  proof (cases "n = 1")
    case True
    have "bit_length (1 div 2) = 0" by (simp add: bit_length.simps [of 0])
    with bl True show ?thesis by simp
  next
    case False
    with "1.prems" have pos: "0 < n div 2" by simp
    have "\<not> n \<le> 0" using "1.prems" by simp
    from "1.IH" [OF this pos]
    have ih1: "2 ^ nat (bit_length (n div 2) - 1) \<le> n div 2"
      and ih2: "n div 2 < 2 ^ nat (bit_length (n div 2))"
      and ih3: "0 < bit_length (n div 2)"
      by simp_all
    have n1: "nat (bit_length n - 1) = Suc (nat (bit_length (n div 2) - 1))"
      using ih3 bl by simp
    have n2: "nat (bit_length n) = Suc (nat (bit_length (n div 2)))"
      using ih3 bl by simp
    have a: "2 ^ nat (bit_length n - 1) \<le> n"
      unfolding n1 using ih1 by simp
    have b: "n < 2 ^ nat (bit_length n)"
      unfolding n2 using ih2 by simp
    show ?thesis using a b bl ih3 by simp
  qed
qed


lemma ilog2_lower:
  assumes "0 < x"
  shows "pow2 (ilog2 x) \<le> x"
proof -
  obtain a b where q: "quotient_of x = (a, b)" by (cases "quotient_of x")
  have b: "0 < b" using q by (rule quotient_of_denom_pos)
  have x: "x = of_int a / of_int b" using q by (rule quotient_of_div)
  have a: "0 < a" using assms b unfolding x by (simp add: zero_less_divide_iff)
  define d where "d = bit_length a - bit_length b"
  have il: "ilog2 x = (if pow2 d \<le> x then d else d - 1)"
    by (simp add: ilog2_def q d_def)
  show ?thesis
  proof (cases "pow2 d \<le> x")
    case True
    then show ?thesis by (simp add: il)
  next
    case False
    have la: "2 ^ nat (bit_length a - 1) \<le> a" "0 < bit_length a"
      using bit_length_bounds [OF a] by simp_all
    have lb: "b < 2 ^ nat (bit_length b)" "0 < bit_length b"
      using bit_length_bounds [OF b] by simp_all
    have "d - 1 = (bit_length a - 1) + (- bit_length b)" by (simp add: d_def)
    then have "pow2 (d - 1) = pow2 (bit_length a - 1) * pow2 (- bit_length b)"
      by (simp only: pow2_add)
    also have "\<dots> = of_int (2 ^ nat (bit_length a - 1)) / of_int (2 ^ nat (bit_length b))"
      using la(2) lb(2) by (simp add: pow2_def)
    also have "\<dots> \<le> of_int a / of_int b"
      by (rule frac_le) (use la(1) lb(1) a b in simp_all)
    finally have "pow2 (d - 1) \<le> x" unfolding x .
    with False show ?thesis by (simp add: il)
  qed
qed

lemma round_half_even_ge_floor: "\<lfloor>y\<rfloor> \<le> round_half_even y"
  by (simp add: round_half_even_def Let_def)

lemma round_half_even_of_int: "round_half_even (of_int k) = k"
  by (simp add: round_half_even_def Let_def)

lemma round_half_even_pos: "1 \<le> y \<Longrightarrow> 1 \<le> round_half_even y"
proof -
  assume "1 \<le> y"
  then have "1 \<le> \<lfloor>y\<rfloor>" by simp
  then show ?thesis using round_half_even_ge_floor [of y] by linarith
qed


lemma on_grid_0: "on_grid 0"
  unfolding on_grid_def by (rule exI [of _ 0]) simp

lemma on_grid_minus: "on_grid y \<Longrightarrow> on_grid (- y)"
  unfolding on_grid_def
proof (elim exE)
  fix k :: int assume "y = of_int k * pow2 (- 1074)"
  then have "- y = of_int (- k) * pow2 (- 1074)" by simp
  then show "\<exists>j::int. - y = of_int j * pow2 (- 1074)" by (rule exI)
qed

lemma on_grid_diff: "on_grid x \<Longrightarrow> on_grid y \<Longrightarrow> on_grid (x - y)"
  unfolding on_grid_def
proof (elim exE)
  fix k j :: int
  assume "x = of_int k * pow2 (- 1074)" "y = of_int j * pow2 (- 1074)"
  then have "x - y = of_int (k - j) * pow2 (- 1074)" by (simp add: algebra_simps)
  then show "\<exists>i::int. x - y = of_int i * pow2 (- 1074)" by (rule exI)
qed

lemma round_pos_on_grid: "on_grid (round_pos x)"
proof -
  define e where "e = max (ilog2 x) (- 1022)"
  define n where "n = round_half_even (x / pow2 (e - 52))"
  have e: "0 \<le> e + 1022" by (simp add: e_def)
  have "e - 52 = (e + 1022) + (- 1074)" by simp
  then have "pow2 (e - 52) = pow2 (e + 1022) * pow2 (- 1074)" by (simp only: pow2_add)
  also have "pow2 (e + 1022) = of_int (2 ^ nat (e + 1022))"
    using e by (simp add: pow2_def)
  finally have q: "pow2 (e - 52) = of_int (2 ^ nat (e + 1022)) * pow2 (- 1074)" .
  have "round_pos x = of_int n * pow2 (e - 52)"
    by (simp add: round_pos_def Let_def e_def n_def)
  also have "\<dots> = of_int (n * 2 ^ nat (e + 1022)) * pow2 (- 1074)"
    by (simp only: q of_int_mult mult.assoc)
  finally show ?thesis unfolding on_grid_def by (rule exI)
qed

lemma to_double_on_grid: "to_double x = Fin y \<Longrightarrow> on_grid y"
  by (auto simp: to_double_def Let_def on_grid_0 round_pos_on_grid on_grid_minus
      split: if_splits)

lemma round_pos_positive:
  assumes g: "on_grid x" and pos: "0 < x"
  shows "0 < round_pos x"
proof -
  define e where "e = max (ilog2 x) (- 1022)"
  define q where "q = pow2 (e - 52)"
  have qpos: "0 < q" by (simp add: q_def pow2_pos)
  have "q \<le> x"
  proof (cases "ilog2 x \<le> - 1022")
    case True
    then have q: "q = pow2 (- 1074)" by (simp add: q_def e_def)
    from g obtain k :: int where k: "x = of_int k * pow2 (- 1074)"
      unfolding on_grid_def by blast
    have "0 < k" using pos pow2_pos [of "- 1074"] unfolding k
      by (simp add: zero_less_mult_iff)
    then have "(1::rat) \<le> of_int k" by simp
    then have "1 * pow2 (- 1074) \<le> of_int k * pow2 (- 1074)"
      using pow2_pos [of "- 1074"] by (simp only: mult_le_cancel_right_pos)
    then show ?thesis by (simp add: q k)
  next
    case False
    then have e: "e = ilog2 x" by (simp add: e_def)
    have "e - 52 = e + (- 52)" by simp
    then have "q = pow2 e * pow2 (- 52)" unfolding q_def by (simp only: pow2_add)
    also have "\<dots> \<le> pow2 e * 1"
      by (rule mult_left_mono) (simp_all add: pow2_def)
    also have "\<dots> \<le> x" using ilog2_lower [OF pos] by (simp add: e)
    finally show ?thesis .
  qed
  then have "1 \<le> x / q" using qpos by (simp add: le_divide_eq)
  then have "1 \<le> round_half_even (x / q)" by (rule round_half_even_pos)
  then have "(0::rat) < of_int (round_half_even (x / q))" by simp
  then have "0 < of_int (round_half_even (x / q)) * q" using qpos by (simp add: zero_less_mult_iff)
  then show ?thesis by (simp add: round_pos_def Let_def q_def e_def)
qed

lemma to_double_sign:
  assumes "on_grid x"
  shows "js_gt (to_double x) (Fin 0) \<longleftrightarrow> 0 < x"
proof -
  consider "x = 0" | "0 < x" | "x < 0" by linarith
  then show ?thesis
  proof cases
    case 1
    then show ?thesis by (simp add: to_double_def)
  next
    case 2
    with round_pos_positive [OF assms] show ?thesis
      by (simp add: to_double_def Let_def)
  next
    case 3
    then have "0 < round_pos (- x)"
      using round_pos_positive [OF on_grid_minus [OF assms]] by simp
    with 3 show ?thesis by (simp add: to_double_def Let_def)
  qed
qed

lemma js_sub_sign:
  assumes "a \<noteq> NaN" "b \<noteq> NaN" "\<And>x. a = Fin x \<Longrightarrow> on_grid x" "\<And>y. b = Fin y \<Longrightarrow> on_grid y"
  shows "js_gt (js_sub a b) (Fin 0) \<longleftrightarrow> js_gt a b"
proof (cases a)
  case (Fin x)
  show ?thesis
  proof (cases b)
    case (Fin y)
    have "on_grid (x - y)" using assms \<open>a = Fin x\<close> \<open>b = Fin y\<close> by (simp add: on_grid_diff)
    from to_double_sign [OF this] show ?thesis
      using \<open>a = Fin x\<close> \<open>b = Fin y\<close> by simp
  qed (use assms \<open>a = Fin x\<close> in simp_all)
qed (use assms in \<open>cases b; simp\<close>)+

lemma pow2_mono: "a \<le> b \<Longrightarrow> pow2 a \<le> pow2 b"
proof -
  assume ab: "a \<le> b"
  have "pow2 b = pow2 a * pow2 (b - a)" using pow2_add [of a "b - a"] by simp
  moreover have "1 \<le> pow2 (b - a)" using ab by (simp add: pow2_def)
  ultimately show ?thesis using pow2_pos [of a] by simp
qed

lemma pow2_diff: "pow2 (a - b) = pow2 a / pow2 b"
proof -
  have "pow2 a = pow2 (a - b) * pow2 b" using pow2_add [of "a - b" b] by simp
  then show ?thesis using pow2_pos [of b] by simp
qed

lemma round_pos_exact:
  assumes x: "x = of_int m * pow2 j" and m: "0 < m" "m < 2 ^ 53" and j: "- 1074 \<le> j"
  shows "round_pos x = x"
proof -
  define e where "e = max (ilog2 x) (- 1022)"
  define t where "t = j - (e - 52)"
  have pos: "0 < x" using m(1) pow2_pos [of j] unfolding x by (simp add: zero_less_mult_iff)
  have t: "0 \<le> t"
  proof (cases "ilog2 x \<le> - 1022")
    case True
    then show ?thesis using j by (simp add: t_def e_def)
  next
    case False
    then have e: "e = ilog2 x" by (simp add: e_def)
    have "pow2 e \<le> x" using ilog2_lower [OF pos] by (simp add: e)
    also have "x < of_int (2 ^ 53) * pow2 j"
      unfolding x using m(2) pow2_pos [of j] by (simp only: mult_less_cancel_right_pos of_int_less_iff)
    also have "\<dots> = pow2 53 * pow2 j" by (simp add: pow2_def)
    also have "\<dots> = pow2 (53 + j)" by (simp only: pow2_add)
    finally have "pow2 e < pow2 (53 + j)" .
    then have "\<not> 53 + j \<le> e" using pow2_mono [of "53 + j" e] by linarith
    then show ?thesis by (simp add: t_def)
  qed
  have "x / pow2 (e - 52) = of_int m * pow2 t"
    unfolding x t_def pow2_diff [of j] by simp
  also have "pow2 t = of_int (2 ^ nat t)" using t by (simp add: pow2_def)
  finally have div: "x / pow2 (e - 52) = of_int (m * 2 ^ nat t)" by simp
  have "round_pos x = of_int (round_half_even (x / pow2 (e - 52))) * pow2 (e - 52)"
    by (simp add: round_pos_def Let_def e_def)
  also have "\<dots> = of_int (m * 2 ^ nat t) * pow2 (e - 52)"
    by (simp only: div round_half_even_of_int)
  also have "\<dots> = x / pow2 (e - 52) * pow2 (e - 52)" by (simp only: div)
  also have "\<dots> = x" using pow2_pos [of "e - 52"] by simp
  finally show ?thesis .
qed

lemma to_double_exact:
  assumes x: "x = of_int m * pow2 j" and m: "\<bar>m\<bar> < 2 ^ 53" and j: "- 1074 \<le> j"
    and fin: "\<bar>x\<bar> < pow2 1024"
  shows "to_double x = Fin x"
proof -
  consider "m = 0" | "0 < m" | "m < 0" by linarith
  then show ?thesis
  proof cases
    case 1
    then show ?thesis by (simp add: x to_double_def)
  next
    case 2
    then have pos: "0 < x" using pow2_pos [of j] unfolding x by (simp add: zero_less_mult_iff)
    have "round_pos x = x" using x 2 m j by (intro round_pos_exact [of x m j]) simp_all
    with pos fin show ?thesis by (simp add: to_double_def Let_def)
  next
    case 3
    then have neg: "x < 0" using pow2_pos [of j] unfolding x by (simp add: mult_less_0_iff)
    have "- x = of_int (- m) * pow2 j" by (simp add: x)
    then have "round_pos (- x) = - x" using 3 m j by (intro round_pos_exact [of "- x" "- m" j]) simp_all
    with neg fin show ?thesis by (simp add: to_double_def Let_def)
  qed
qed

lemma pow2_1024_big: "(2::rat) ^ 53 \<le> pow2 1024"
proof -
  have "pow2 53 \<le> pow2 1024" by (rule pow2_mono) simp
  then show ?thesis by (simp add: pow2_def)
qed

lemma to_double_int: "\<bar>m\<bar> < 2 ^ 53 \<Longrightarrow> to_double (of_int m) = Fin (of_int m)"
proof -
  assume m: "\<bar>m\<bar> < 2 ^ 53"
  have "\<bar>of_int m :: rat\<bar> < 2 ^ 53"
    using m by (metis of_int_abs of_int_less_numeral_power_cancel_iff)
  then have "\<bar>of_int m :: rat\<bar> < pow2 1024" using pow2_1024_big by linarith
  then show ?thesis using to_double_exact [of "of_int m" m 0] m by (simp add: pow2_def)
qed

lemma to_double_half: "\<bar>m\<bar> < 2 ^ 53 \<Longrightarrow> to_double (of_int m / 2) = Fin (of_int m / 2)"
proof -
  assume m: "\<bar>m\<bar> < 2 ^ 53"
  have "\<bar>of_int m :: rat\<bar> < 2 ^ 53"
    using m by (metis of_int_abs of_int_less_numeral_power_cancel_iff)
  then have "\<bar>of_int m / 2 :: rat\<bar> < pow2 1024" using pow2_1024_big by simp
  then show ?thesis using to_double_exact [of "of_int m / 2" m "- 1"] m by (simp add: pow2_def)
qed

section \<open>Facts about the extracted prices\<close>

lemma to_double_not_NaN: "to_double x \<noteq> NaN"
  by (simp add: to_double_def Let_def)

lemma parse_literal_on_grid: "parse_literal neg r = Fin y \<Longrightarrow> on_grid y"
  by (auto simp: parse_literal_def split: if_splits option.splits dest: to_double_on_grid)

lemma parseFloat_on_grid: "parseFloat s = Fin y \<Longrightarrow> on_grid y"
  by (auto simp: parseFloat_def Let_def split: if_splits dest: parse_literal_on_grid)

lemma or_zero_not_NaN: "or_zero x \<noteq> NaN"
  by (simp add: or_zero_def)

lemma price_replace_not_NaN: "price_replace s \<noteq> NaN"
  by (simp add: price_replace_def or_zero_not_NaN)

lemma price_replace_on_grid: "price_replace s = Fin y \<Longrightarrow> on_grid y"
  by (auto simp: price_replace_def or_zero_def on_grid_0 split: if_splits dest: parseFloat_on_grid)

lemma sort_callback_sign:
  "js_gt (sort_callback a b) (Fin 0)
   \<longleftrightarrow> js_gt (price_replace (Precio_Oferta a)) (price_replace (Precio_Oferta b))"
  unfolding sort_callback_def Let_def
  by (rule js_sub_sign) (simp_all add: price_replace_not_NaN price_replace_on_grid)

lemma digit_not_space: "is_digit d \<Longrightarrow> \<not> is_space d"
  by (auto simp: is_digit_def is_space_def)

lemma digit_not_sign: "is_digit d \<Longrightarrow> d \<noteq> CHR ''-'' \<and> d \<noteq> CHR ''+'' \<and> d \<noteq> CHR ''I''"
  by (auto simp: is_digit_def)

lemma match_number_at_digit: "match_number_at s = Some m \<Longrightarrow> \<exists>d r. m = d # r \<and> is_digit d"
proof -
  assume a: "match_number_at s = Some m"
  then have ne: "takeWhile is_digit s \<noteq> []"
    by (auto simp: match_number_at_def Let_def split: if_splits)
  then obtain d ds where t: "takeWhile is_digit s = d # ds" by (cases "takeWhile is_digit s") auto
  then have "d \<in> set (takeWhile is_digit s)" by simp
  then have d: "is_digit d" by (rule set_takeWhileD [THEN conjunct2])
  from a have "m = d # ds \<or> m = d # (ds @ ''.'' @ takeWhile is_digit (drop 1 (dropWhile is_digit s)))"
    by (auto simp: match_number_at_def Let_def t split: if_splits)
  with d show ?thesis by blast
qed

lemma match_number_digit: "match_number s = Some m \<Longrightarrow> \<exists>d r. m = d # r \<and> is_digit d"
  by (induction s) (auto split: option.splits dest: match_number_at_digit)

lemma parseFloat_digit_not_NaN: "is_digit d \<Longrightarrow> parseFloat (d # r) \<noteq> NaN"
  using digit_not_space [of d] digit_not_sign [of d]
  by (auto simp: parseFloat_def parse_literal_def parse_unsigned_def Let_def to_double_not_NaN)

lemma price_match_not_NaN: "price_match s \<noteq> NaN"
  by (auto simp: price_match_def split: option.splits dest!: match_number_digit
      simp: parseFloat_digit_not_NaN)

lemmas eval_defs = price_replace_def price_match_def or_zero_def parseFloat_def parse_literal_def
  parse_unsigned_def parse_exponent_def match_number_at_def is_digit_def is_space_def
  digits_val_def digit_val_def Let_def

section \<open>Facts about the filter\<close>

lemma str_includes_iff:
  "str_includes s t \<longleftrightarrow> (\<exists>i \<in> {0 .. length s}. take (length t) (drop i s) = t)"
proof (induction s)
  case Nil
  then show ?case by auto
next
  case (Cons c s)
  have "(\<exists>i \<in> {0 .. length (c # s)}. take (length t) (drop i (c # s)) = t)
        \<longleftrightarrow> take (length t) (c # s) = t \<or> (\<exists>i \<in> {0 .. length s}. take (length t) (drop i s) = t)"
    (is "?L \<longleftrightarrow> ?A \<or> ?R")
  proof
    assume ?L
    then obtain i where i: "i \<le> length (c # s)" "take (length t) (drop i (c # s)) = t" by auto
    show "?A \<or> ?R"
    proof (cases i)
      case 0
      with i show ?thesis by simp
    next
      case (Suc k)
      with i have "k \<in> {0 .. length s}" "take (length t) (drop k s) = t" by simp_all
      then show ?thesis by blast
    qed
  next
    assume "?A \<or> ?R"
    then show ?L
    proof
      assume ?A
      then have "take (length t) (drop 0 (c # s)) = t" by simp
      then show ?L by (intro bexI [of _ 0]) simp_all
    next
      assume ?R
      then obtain k where "k \<le> length s" "take (length t) (drop k s) = t" by auto
      then have "Suc k \<in> {0 .. length (c # s)}" "take (length t) (drop (Suc k) (c # s)) = t"
        by simp_all
      then show ?L by blast
    qed
  qed
  with Cons show ?case by simp
qed

lemma length_toLowerCase: "length (toLowerCase s) = length s"
  by (simp add: toLowerCase_def)

lemma toLowerCase_take_drop:
  "take n (drop i (toLowerCase s)) = toLowerCase (take n (drop i s))"
  by (simp add: toLowerCase_def take_map drop_map)

lemma includes_lower_iff:
  "str_includes (toLowerCase name) (toLowerCase f) \<longleftrightarrow> name_matches f name"
  by (simp add: str_includes_iff name_matches_def length_toLowerCase toLowerCase_take_drop)

lemma filter_callback_tests:
  assumes "priceFilter st \<noteq> NaN" "price_of (Precio_Oferta p) \<noteq> NaN"
  shows "filter_callback price_of st p \<longleftrightarrow>
           (nameFilter st \<noteq> [] \<longrightarrow> name_matches (nameFilter st) (Producto p))
         \<and> (pharmacyFilter st \<noteq> [] \<longrightarrow> Farmacia p = pharmacyFilter st)
         \<and> js_le (price_of (Precio_Oferta p)) (priceFilter st)
         \<and> (offersFilter st \<longrightarrow> Precio_Regular p \<noteq> ''No disponible'')"
  using js_gt_iff_not_le [OF assms(2) assms(1)]
  by (auto simp: filter_callback_def Let_def includes_lower_iff hasOffer_def)

section \<open>Facts about the first numeric token\<close>

lemma dot_not_digit: "\<not> is_digit CHR ''.''"
  by (simp add: is_digit_def)

lemma takeWhile_digits: "list_all is_digit ip \<Longrightarrow> takeWhile is_digit (ip @ r) = ip @ takeWhile is_digit r"
  by (simp add: list_all_iff takeWhile_append2)

lemma dropWhile_digits: "list_all is_digit ip \<Longrightarrow> dropWhile is_digit (ip @ r) = dropWhile is_digit r"
  by (simp add: list_all_iff dropWhile_append2)

lemma numeric_token_shape:
  "numeric_token t \<longleftrightarrow>
     takeWhile is_digit t \<noteq> []
     \<and> (dropWhile is_digit t = []
        \<or> (\<exists>fp. fp \<noteq> [] \<and> list_all is_digit fp \<and> dropWhile is_digit t = CHR ''.'' # fp))"
  (is "?L \<longleftrightarrow> ?R")
proof
  assume ?L
  then obtain ip fp where ip: "ip \<noteq> []" "list_all is_digit ip" and fp: "list_all is_digit fp"
    and t: "t = ip \<or> (fp \<noteq> [] \<and> t = ip @ ''.'' @ fp)"
    unfolding numeric_token_def by blast
  from t show ?R
  proof
    assume e: "t = ip"
    have tw: "takeWhile is_digit ip = ip" and dw: "dropWhile is_digit ip = []"
      using ip(2) by (simp_all add: list_all_iff)
    show ?R unfolding e tw dw using ip(1) by blast
  next
    assume a: "fp \<noteq> [] \<and> t = ip @ ''.'' @ fp"
    then have "takeWhile is_digit t = ip" "dropWhile is_digit t = CHR ''.'' # fp"
      using takeWhile_digits [OF ip(2), of "CHR ''.'' # fp"]
        dropWhile_digits [OF ip(2), of "CHR ''.'' # fp"]
      by (simp_all add: dot_not_digit)
    then show ?R using ip a fp by simp
  qed
next
  assume r: ?R
  have ip: "list_all is_digit (takeWhile is_digit t)"
    by (simp add: list_all_iff) (meson set_takeWhileD)
  have t: "t = takeWhile is_digit t @ dropWhile is_digit t" by simp
  from r have "dropWhile is_digit t = []
        \<or> (\<exists>fp. fp \<noteq> [] \<and> list_all is_digit fp \<and> dropWhile is_digit t = CHR ''.'' # fp)"
    by blast
  then show ?L
  proof
    assume "dropWhile is_digit t = []"
    with t have "t = takeWhile is_digit t" by simp
    with r ip show ?L unfolding numeric_token_def
      by (intro exI [of _ "takeWhile is_digit t"] exI [of _ "[]"]) simp
  next
    assume "\<exists>fp. fp \<noteq> [] \<and> list_all is_digit fp \<and> dropWhile is_digit t = CHR ''.'' # fp"
    then obtain fp where fp: "fp \<noteq> []" "list_all is_digit fp"
      "dropWhile is_digit t = CHR ''.'' # fp" by blast
    with t have "t = takeWhile is_digit t @ ''.'' @ fp" by simp
    with r ip fp show ?L unfolding numeric_token_def
      by (intro exI [of _ "takeWhile is_digit t"] exI [of _ fp]) simp
  qed
qed

lemma match_number_dropWhile:
  "match_number s = match_number_at (dropWhile (\<lambda>c. \<not> is_digit c) s)"
proof (induction s)
  case Nil
  then show ?case by (simp add: match_number_at_def)
next
  case (Cons c s)
  show ?case
  proof (cases "is_digit c")
    case True
    then have "match_number_at (c # s) \<noteq> None"
      by (simp add: match_number_at_def Let_def)
    with True show ?thesis by (auto split: option.splits)
  next
    case False
    then have "match_number_at (c # s) = None"
      by (simp add: match_number_at_def Let_def)
    with False Cons show ?thesis by simp
  qed
qed

lemma match_number_None_iff: "match_number s = None \<longleftrightarrow> (\<forall>c \<in> set s. \<not> is_digit c)"
proof -
  have "match_number_at r = None \<longleftrightarrow> takeWhile is_digit r = []" for r
    by (simp add: match_number_at_def Let_def)
  then have "match_number s = None
             \<longleftrightarrow> takeWhile is_digit (dropWhile (\<lambda>c. \<not> is_digit c) s) = []"
    by (simp add: match_number_dropWhile)
  also have "\<dots> \<longleftrightarrow> dropWhile (\<lambda>c. \<not> is_digit c) s = []"
  proof
    assume a: "takeWhile is_digit (dropWhile (\<lambda>c. \<not> is_digit c) s) = []"
    show "dropWhile (\<lambda>c. \<not> is_digit c) s = []"
    proof (rule ccontr)
      assume ne: "dropWhile (\<lambda>c. \<not> is_digit c) s \<noteq> []"
      then have "\<not> \<not> is_digit (hd (dropWhile (\<lambda>c. \<not> is_digit c) s))" by (rule hd_dropWhile)
      with ne a show False by (cases "dropWhile (\<lambda>c. \<not> is_digit c) s") auto
    qed
  next
    assume e: "dropWhile (\<lambda>c. \<not> is_digit c) s = []"
    show "takeWhile is_digit (dropWhile (\<lambda>c. \<not> is_digit c) s) = []" unfolding e by simp
  qed
  also have "\<dots> \<longleftrightarrow> (\<forall>c \<in> set s. \<not> is_digit c)" by (simp add: dropWhile_eq_Nil_conv)
  finally show ?thesis .
qed

lemma list_all_takeWhile: "list_all P (takeWhile P xs)"
  by (simp add: list_all_iff) (meson set_takeWhileD)

lemma dropWhile_head: "xs \<noteq> [] \<Longrightarrow> \<not> P (hd xs) \<Longrightarrow> dropWhile P xs = xs \<and> takeWhile P xs = []"
  by (cases xs) simp_all

lemma match_number_at_first_token:
  assumes "match_number_at r = Some t"
  shows "numeric_token t
       \<and> (\<exists>post. r = t @ post \<and> (\<forall>u v. u \<noteq> [] \<and> post = u @ v \<longrightarrow> \<not> numeric_token (t @ u)))"
proof -
  define ip where "ip = takeWhile is_digit r"
  define r1 where "r1 = dropWhile is_digit r"
  have r: "r = ip @ r1" by (simp add: ip_def r1_def)
  have ip: "ip \<noteq> []" "list_all is_digit ip"
    using assms by (auto simp: ip_def match_number_at_def Let_def list_all_takeWhile split: if_splits)
  have r1: "\<not> is_digit (hd r1)" if "r1 \<noteq> []"
    using that unfolding r1_def by (rule hd_dropWhile)
  show ?thesis
  proof (cases "take 1 r1 = ''.'' \<and> takeWhile is_digit (drop 1 r1) \<noteq> []")
    case True
    define fp where "fp = takeWhile is_digit (drop 1 r1)"
    define post where "post = dropWhile is_digit (drop 1 r1)"
    have fp: "fp \<noteq> []" "list_all is_digit fp"
      using True by (simp_all add: fp_def list_all_takeWhile)
    have r1e: "r1 = CHR ''.'' # fp @ post"
      using True by (cases r1) (simp_all add: fp_def post_def)
    have t: "t = ip @ ''.'' @ fp"
      using assms True
      by (auto simp: match_number_at_def Let_def ip_def r1_def fp_def split: if_splits)
    have tok: "numeric_token t"
      unfolding numeric_token_def using ip fp t by blast
    have rt: "r = t @ post" by (simp add: r r1e t)
    have "\<not> numeric_token (t @ u)" if u: "u \<noteq> []" "post = u @ v" for u v
    proof
      assume "numeric_token (t @ u)"
      then have "dropWhile is_digit (t @ u) = []
                 \<or> (\<exists>fp'. fp' \<noteq> [] \<and> list_all is_digit fp'
                          \<and> dropWhile is_digit (t @ u) = CHR ''.'' # fp')"
        by (simp add: numeric_token_shape)
      moreover have "dropWhile is_digit (t @ u) = CHR ''.'' # fp @ u"
        using dropWhile_digits [OF ip(2), of "CHR ''.'' # fp @ u"]
        by (simp add: t dot_not_digit)
      ultimately have "list_all is_digit (fp @ u)" by auto
      then have "is_digit (hd u)" using u(1) by (cases u) simp_all
      moreover have "\<not> is_digit (hd post)"
        using u unfolding post_def by (intro hd_dropWhile) (simp add: post_def [symmetric])
      ultimately show False using u by simp
    qed
    with tok rt show ?thesis by blast
  next
    case False
    have t: "t = ip"
      using assms False by (auto simp: match_number_at_def Let_def ip_def r1_def split: if_splits)
    have tok: "numeric_token t"
      unfolding numeric_token_def using ip t by (intro exI [of _ ip] exI [of _ "[]"]) simp
    have rt: "r = t @ r1" by (simp add: r t)
    have "\<not> numeric_token (t @ u)" if u: "u \<noteq> []" "r1 = u @ v" for u v
    proof
      assume a: "numeric_token (t @ u)"
      have "r1 \<noteq> []" using u by simp
      then have "\<not> is_digit (hd u)" using r1 u by simp
      then have du: "dropWhile is_digit u = u" using u(1) dropWhile_head by blast
      have "dropWhile is_digit (t @ u) = u"
        using dropWhile_digits [OF ip(2), of u] by (simp add: t du)
      with a u(1) obtain fp' where fp': "fp' \<noteq> []" "list_all is_digit fp'" "u = CHR ''.'' # fp'"
        by (auto simp: numeric_token_shape)
      then have "take 1 r1 = ''.''" "drop 1 r1 = fp' @ v" using u(2) by simp_all
      moreover have "takeWhile is_digit (fp' @ v) \<noteq> []"
        using takeWhile_digits [OF fp'(2), of v] fp'(1) by simp
      ultimately show False using False by simp
    qed
    with tok rt show ?thesis by blast
  qed
qed

lemma numeric_token_starts_with_digit:
  assumes "numeric_token t"
  shows "t \<noteq> [] \<and> is_digit (hd t)"
proof -
  from assms have ne: "takeWhile is_digit t \<noteq> []" by (simp add: numeric_token_shape)
  then have "t \<noteq> []" by auto
  moreover have "is_digit (hd t)" using ne by (cases t) (auto split: if_splits)
  ultimately show ?thesis by simp
qed

lemma match_number_first_token:
  assumes "match_number s = Some t"
  shows "first_numeric_token s t"
proof -
  define pre where "pre = takeWhile (\<lambda>c. \<not> is_digit c) s"
  have pre: "list_all (\<lambda>c. \<not> is_digit c) pre" unfolding pre_def by (rule list_all_takeWhile)
  have s: "s = pre @ dropWhile (\<lambda>c. \<not> is_digit c) s" by (simp add: pre_def)
  from assms have "match_number_at (dropWhile (\<lambda>c. \<not> is_digit c) s) = Some t"
    by (simp add: match_number_dropWhile)
  from match_number_at_first_token [OF this]
  obtain post where tok: "numeric_token t" and d: "dropWhile (\<lambda>c. \<not> is_digit c) s = t @ post"
    and mx: "\<forall>u v. u \<noteq> [] \<and> post = u @ v \<longrightarrow> \<not> numeric_token (t @ u)"
    by blast
  have "s = pre @ t @ post" using s d by simp
  with pre tok mx show ?thesis unfolding first_numeric_token_def by blast
qed

lemma first_token_match_number:
  assumes "first_numeric_token s t"
  shows "match_number s = Some t"
proof -
  from assms obtain pre post where s: "s = pre @ t @ post"
    and pre: "list_all (\<lambda>c. \<not> is_digit c) pre" and tok: "numeric_token t"
    and mx: "\<And>u v. u \<noteq> [] \<Longrightarrow> post = u @ v \<Longrightarrow> \<not> numeric_token (t @ u)"
    unfolding first_numeric_token_def by blast
  define ip where "ip = takeWhile is_digit t"
  have ip: "ip \<noteq> []" "list_all is_digit ip"
    using tok by (simp_all add: ip_def numeric_token_shape list_all_takeWhile)
  have t: "t = ip @ dropWhile is_digit t" by (simp add: ip_def)
  have hd: "t \<noteq> []" "is_digit (hd t)" using numeric_token_starts_with_digit [OF tok] by simp_all
  have "dropWhile (\<lambda>c. \<not> is_digit c) s = dropWhile (\<lambda>c. \<not> is_digit c) (t @ post)"
    using pre by (simp add: s list_all_iff dropWhile_append2)
  also have "\<dots> = t @ post" using hd by (cases t) simp_all
  finally have m: "match_number s = match_number_at (t @ post)"
    by (simp add: match_number_dropWhile)
  have nodigit: "takeWhile is_digit post = [] \<and> dropWhile is_digit post = post"
  proof (cases post)
    case Nil
    then show ?thesis by simp
  next
    case (Cons d v)
    have "\<not> is_digit d"
    proof
      assume d: "is_digit d"
      from tok obtain ip' fp' where ip': "ip' \<noteq> []" "list_all is_digit ip'"
        and fp': "list_all is_digit fp'"
        and c: "t = ip' \<or> (fp' \<noteq> [] \<and> t = ip' @ ''.'' @ fp')"
        unfolding numeric_token_def by blast
      from c have "numeric_token (t @ [d])"
      proof
        assume "t = ip'"
        then show ?thesis unfolding numeric_token_def using ip' d
          by (intro exI [of _ "ip' @ [d]"] exI [of _ "[]"]) simp
      next
        assume "fp' \<noteq> [] \<and> t = ip' @ ''.'' @ fp'"
        then show ?thesis unfolding numeric_token_def using ip' fp' d
          by (intro exI [of _ ip'] exI [of _ "fp' @ [d]"]) simp
      qed
      moreover have "post = [d] @ v" using Cons by simp
      ultimately show False using mx [of "[d]" v] by simp
    qed
    with Cons show ?thesis by simp
  qed
  from tok have "dropWhile is_digit t = []
        \<or> (\<exists>fp. fp \<noteq> [] \<and> list_all is_digit fp \<and> dropWhile is_digit t = CHR ''.'' # fp)"
    by (simp add: numeric_token_shape)
  then have "match_number_at (t @ post) = Some t"
  proof
    assume e: "dropWhile is_digit t = []"
    have tip: "t = ip" using t unfolding e by simp
    have tw: "takeWhile is_digit (t @ post) = t" "dropWhile is_digit (t @ post) = post"
      using takeWhile_digits [OF ip(2), of post] dropWhile_digits [OF ip(2), of post] nodigit
      by (simp_all add: tip)
    have "\<not> (take 1 post = ''.'' \<and> takeWhile is_digit (drop 1 post) \<noteq> [])"
    proof
      assume a: "take 1 post = ''.'' \<and> takeWhile is_digit (drop 1 post) \<noteq> []"
      then obtain w where w: "post = CHR ''.'' # w" by (cases post) simp_all
      with a have "takeWhile is_digit w \<noteq> []" by simp
      then obtain d v where dv: "w = d # v" "is_digit d"
        by (cases w) (auto split: if_splits)
      have "numeric_token (t @ [CHR ''.'', d])"
        unfolding numeric_token_def using ip dv(2) tip
        by (intro exI [of _ ip] exI [of _ "[d]"]) simp
      moreover have "post = [CHR ''.'', d] @ v" using w dv by simp
      ultimately show False using mx [of "[CHR ''.'', d]" v] by simp
    qed
    then show ?thesis unfolding match_number_at_def Let_def tw using hd(1)
      by simp
  next
    assume "\<exists>fp. fp \<noteq> [] \<and> list_all is_digit fp \<and> dropWhile is_digit t = CHR ''.'' # fp"
    then obtain fp where fp: "fp \<noteq> []" "list_all is_digit fp"
      "dropWhile is_digit t = CHR ''.'' # fp" by blast
    have tip: "t = ip @ CHR ''.'' # fp" using t fp(3) by simp
    have tw: "takeWhile is_digit (t @ post) = ip"
      "dropWhile is_digit (t @ post) = CHR ''.'' # fp @ post"
      using takeWhile_digits [OF ip(2), of "CHR ''.'' # fp @ post"]
        dropWhile_digits [OF ip(2), of "CHR ''.'' # fp @ post"]
      by (simp_all add: tip dot_not_digit)
    have "takeWhile is_digit (fp @ post) = fp"
      using takeWhile_digits [OF fp(2), of post] nodigit by simp
    then show ?thesis unfolding match_number_at_def Let_def tw using ip(1) fp(1)
      by (simp add: tip)
  qed
  with m show ?thesis by simp
qed

lemma first_numeric_token_iff: "first_numeric_token s t \<longleftrightarrow> match_number s = Some t"
  using first_token_match_number match_number_first_token by blast

lemma digits_val_foldl:
  "foldl (\<lambda>n c. 10 * n + digit_val c) a b
   = a * 10 ^ length b + foldl (\<lambda>n c. 10 * n + digit_val c) 0 b"
proof (induction b arbitrary: a)
  case Nil
  then show ?case by simp
next
  case (Cons c b)
  show ?case
    using Cons.IH [of "10 * a + digit_val c"] Cons.IH [of "digit_val c"]
    by (simp add: algebra_simps)
qed

lemma digits_val_append:
  "digits_val (a @ b) = digits_val a * 10 ^ length b + digits_val b"
  unfolding digits_val_def using digits_val_foldl [of "foldl (\<lambda>n c. 10 * n + digit_val c) 0 a" b]
  by simp

lemma parseFloat_numeric_token:
  assumes "numeric_token t"
  shows "parseFloat t = to_double (token_value t)"
proof -
  define ip where "ip = takeWhile is_digit t"
  have ip: "ip \<noteq> []" "list_all is_digit ip"
    using assms by (simp_all add: ip_def numeric_token_shape list_all_takeWhile)
  have hd: "t \<noteq> []" "is_digit (hd t)"
    using numeric_token_starts_with_digit [OF assms] by simp_all
  then obtain d w where dw: "t = d # w" "is_digit d" by (cases t) simp_all
  have pf: "parseFloat t = (case parse_unsigned t of None \<Rightarrow> NaN | Some v \<Rightarrow> to_double v)"
    using digit_not_space [OF dw(2)] digit_not_sign [OF dw(2)]
    by (simp add: parseFloat_def parse_literal_def dw(1) split: option.splits)
  from assms have "dropWhile is_digit t = []
        \<or> (\<exists>fp. fp \<noteq> [] \<and> list_all is_digit fp \<and> dropWhile is_digit t = CHR ''.'' # fp)"
    by (simp add: numeric_token_shape)
  then have "parse_unsigned t = Some (token_value t)"
  proof
    assume e: "dropWhile is_digit t = []"
    have tip: "t = ip"
      using takeWhile_dropWhile_id [of is_digit t] unfolding e ip_def by (metis append_Nil2)
    have "parse_unsigned t = Some (of_int (digits_val ip))"
      using ip(1) by (simp add: parse_unsigned_def Let_def e ip_def [symmetric] parse_exponent_def)
    moreover have "drop (Suc (length ip)) t = []" using tip by simp
    then have "token_value t = of_int (digits_val ip)"
      unfolding token_value_def Let_def ip_def [symmetric] by (simp add: digits_val_def)
    ultimately show ?thesis by simp
  next
    assume "\<exists>fp. fp \<noteq> [] \<and> list_all is_digit fp \<and> dropWhile is_digit t = CHR ''.'' # fp"
    then obtain fp where fp: "fp \<noteq> []" "list_all is_digit fp"
      "dropWhile is_digit t = CHR ''.'' # fp" by blast
    have tip: "t = ip @ CHR ''.'' # fp"
      using takeWhile_dropWhile_id [of is_digit t] fp(3) by (simp add: ip_def)
    have tf: "takeWhile is_digit fp = fp" "dropWhile is_digit fp = []"
      using fp(2) by (simp_all add: list_all_iff)
    have "parse_unsigned t
          = Some (of_int (digits_val (ip @ fp)) * (1 / 10 ^ length fp))"
      using ip(1) fp(1)
      by (simp add: parse_unsigned_def Let_def fp(3) ip_def [symmetric] tf parse_exponent_def)
    moreover have "drop (Suc (length ip)) t = fp" using tip by simp
    then have "token_value t
          = of_int (digits_val ip) + of_int (digits_val fp) / 10 ^ length fp"
      unfolding token_value_def Let_def ip_def [symmetric] by simp
    ultimately show ?thesis
      by (simp add: digits_val_append field_simps)
  qed
  with pf show ?thesis by simp
qed

lemma part000_price_is_first_numeric_token:
  "first_numeric_token s t \<Longrightarrow> price_match s = to_double (token_value t)"
  "(\<forall>c \<in> set s. \<not> is_digit c) \<Longrightarrow> price_match s = Fin 0"
proof -
  assume a: "first_numeric_token s t"
  then have "match_number s = Some t" by (rule first_token_match_number)
  moreover have "numeric_token t" using a unfolding first_numeric_token_def by blast
  ultimately show "price_match s = to_double (token_value t)"
    by (simp add: price_match_def parseFloat_numeric_token)
next
  assume "\<forall>c \<in> set s. \<not> is_digit c"
  then have "match_number s = None" by (simp add: match_number_None_iff)
  then show "price_match s = Fin 0" by (simp add: price_match_def)
qed

lemma step1_price_iff: "step1_price x v \<longleftrightarrow> v = price_match x"
proof (cases "match_number x")
  case None
  then have "\<not> (\<exists>t. first_numeric_token x t)" by (simp add: first_numeric_token_iff)
  with None show ?thesis by (simp add: step1_price_def price_match_def)
next
  case (Some t)
  then have t: "first_numeric_token x t" by (simp add: first_numeric_token_iff)
  have u: "t' = t" if "first_numeric_token x t'" for t'
    using that Some by (simp add: first_numeric_token_iff)
  have pm: "price_match x = to_double (token_value t)"
    using t by (rule part000_price_is_first_numeric_token(1))
  show ?thesis
  proof
    assume "step1_price x v"
    with t u have "v = to_double (token_value t)" unfolding step1_price_def by blast
    with pm show "v = price_match x" by simp
  next
    assume "v = price_match x"
    with pm t show "step1_price x v" unfolding step1_price_def by blast
  qed
qed

lemma part000_filter_callback_iff:
  assumes "priceFilter st \<noteq> NaN"
  shows "filter_callback price_match st p \<longleftrightarrow> passes_all_filters st p"
  using filter_callback_tests [OF assms price_match_not_NaN]
  by (simp add: passes_all_filters_def step1_price_iff)

lemma part000_members_pass_all_filters:
  assumes "productos st = Some raw" and "priceFilter st \<noteq> NaN"
  shows "\<exists>out. getFilteredProducts_part000 st = Inr out
           \<and> (\<forall>p. p \<in> set out \<longleftrightarrow> p \<in> set raw \<and> passes_all_filters st p)"
  using assms
  by (simp add: getFilteredProducts_part000_def set_array_sort part000_filter_callback_iff)

lemma App_members_pass_tests_on_replace_price:
  assumes "productos st = Some raw" and "priceFilter st \<noteq> NaN"
  shows "\<exists>out. getFilteredProducts_App st = Inr out
           \<and> (\<forall>p. p \<in> set out \<longleftrightarrow>
                  p \<in> set raw
                \<and> (nameFilter st \<noteq> [] \<longrightarrow> name_matches (nameFilter st) (Producto p))
                \<and> (pharmacyFilter st \<noteq> [] \<longrightarrow> Farmacia p = pharmacyFilter st)
                \<and> js_le (price_replace (Precio_Oferta p)) (priceFilter st)
                \<and> (offersFilter st \<longrightarrow> Precio_Regular p \<noteq> ''No disponible''))"
  using assms filter_callback_tests [OF assms(2) price_replace_not_NaN]
  by (simp add: getFilteredProducts_App_def set_array_sort)

lemma price_500:
  "price_replace ''S/. 500'' = Fin 0" "price_match ''S/. 500'' = Fin 500"
  using to_double_int [of 500] by (simp_all add: eval_defs)

lemma over_max_price_fails_filters:
  "\<not> passes_all_filters (initial_state\<lparr>productos := Some [priced ''S/. 500'']\<rparr>)
       (priced ''S/. 500'')"
  by (simp add: passes_all_filters_def step1_price_iff price_500 priced_def initial_state_def)

lemma first_numeric_token_example: "first_numeric_token ''S/. 12.50'' ''12.50''"
proof -
  have "match_number ''S/. 12.50'' = Some ''12.50''" by (simp add: eval_defs)
  then show ?thesis by (simp only: first_numeric_token_iff)
qed

section \<open>The scenario, evaluated\<close>

lemma price_replace_S15: "price_replace ''S/ 15'' = Fin 15"
  using to_double_int [of 15] by (simp add: eval_defs)

lemma price_replace_S8: "price_replace ''S/ 8'' = Fin 8"
  using to_double_int [of 8] by (simp add: eval_defs)

lemma price_match_S15: "price_match ''S/ 15'' = Fin 15"
  using to_double_int [of 15] by (simp add: eval_defs)

lemma price_match_S8: "price_match ''S/ 8'' = Fin 8"
  using to_double_int [of 8] by (simp add: eval_defs)

lemma scenario_productos: "productos scenario = Some [dove, nivea]"
  by (simp add: scenario_def initial_state_def)

lemma scenario_max_price_10:
  "getFilteredProducts_App scenario = Inr [nivea]
   \<and> getFilteredProducts_part000 scenario = Inr [nivea]"
  by (simp add: getFilteredProducts_App_def getFilteredProducts_part000_def scenario_def
      initial_state_def dove_def nivea_def filter_callback_def hasOffer_def array_sort_def
      price_replace_S15 price_replace_S8 price_match_S15 price_match_S8)

lemma scenario_offers_only:
  "getFilteredProducts_App (scenario\<lparr>priceFilter := Fin 15, offersFilter := True\<rparr>) = Inr [dove]
   \<and> getFilteredProducts_part000 (scenario\<lparr>priceFilter := Fin 15, offersFilter := True\<rparr>)
       = Inr [dove]"
  by (simp add: getFilteredProducts_App_def getFilteredProducts_part000_def scenario_def
      initial_state_def dove_def nivea_def filter_callback_def hasOffer_def array_sort_def
      price_replace_S15 price_replace_S8 price_match_S15 price_match_S8)

lemma toLowerCase_examples:
  "toLowerCase ''Jabon Dove'' = ''jabon dove''"
  "toLowerCase ''Jabon Nivea'' = ''jabon nivea''"
  "toLowerCase ''DOVE'' = ''dove''"
  by code_simp+

lemma strict_scenario_output:
  "getFilteredProducts_App strict_scenario = Inr [dove]"
  "getFilteredProducts_part000 strict_scenario = Inr [dove]"
  by (simp_all add: getFilteredProducts_App_def getFilteredProducts_part000_def
      strict_scenario_def scenario_def initial_state_def dove_def nivea_def filter_callback_def
      hasOffer_def array_sort_def price_replace_S15 price_replace_S8 price_match_S15
      price_match_S8 toLowerCase_examples)

section \<open>Facts about the sorted output\<close>

lemma projector_sorted_by_sort_key:
  assumes "productos st = Some raw"
  shows "\<exists>out. getFilteredProducts_App st = Inr out
           \<and> sorted_wrt (\<lambda>a b. js_le (price_replace (Precio_Oferta a))
                                     (price_replace (Precio_Oferta b))) out
           \<and> (\<forall>k. filter (\<lambda>p. price_replace (Precio_Oferta p) = k) out
                  = filter (\<lambda>p. price_replace (Precio_Oferta p) = k)
                      (filter (filter_callback price_replace st) raw))"
    and "\<exists>out. getFilteredProducts_part000 st = Inr out
           \<and> sorted_wrt (\<lambda>a b. js_le (price_replace (Precio_Oferta a))
                                     (price_replace (Precio_Oferta b))) out
           \<and> (\<forall>k. filter (\<lambda>p. price_replace (Precio_Oferta p) = k) out
                  = filter (\<lambda>p. price_replace (Precio_Oferta p) = k)
                      (filter (filter_callback price_match st) raw))"
proof -
  have srt: "sorted_wrt (\<lambda>a b. js_le (price_replace (Precio_Oferta a))
                                  (price_replace (Precio_Oferta b)))
               (array_sort sort_callback xs)" for xs
    by (rule sorted_array_sort [of sort_callback "\<lambda>p. price_replace (Precio_Oferta p)"])
       (simp_all add: sort_callback_sign price_replace_not_NaN)
  have stb: "filter (\<lambda>p. price_replace (Precio_Oferta p) = k) (array_sort sort_callback xs)
             = filter (\<lambda>p. price_replace (Precio_Oferta p) = k) xs" for k xs
    by (rule array_sort_stable [of sort_callback "\<lambda>p. price_replace (Precio_Oferta p)"])
       (simp add: sort_callback_sign)
  show "\<exists>out. getFilteredProducts_App st = Inr out
           \<and> sorted_wrt (\<lambda>a b. js_le (price_replace (Precio_Oferta a))
                                     (price_replace (Precio_Oferta b))) out
           \<and> (\<forall>k. filter (\<lambda>p. price_replace (Precio_Oferta p) = k) out
                  = filter (\<lambda>p. price_replace (Precio_Oferta p) = k)
                      (filter (filter_callback price_replace st) raw))"
    using assms srt stb by (simp add: getFilteredProducts_App_def)
  show "\<exists>out. getFilteredProducts_part000 st = Inr out
           \<and> sorted_wrt (\<lambda>a b. js_le (price_replace (Precio_Oferta a))
                                     (price_replace (Precio_Oferta b))) out
           \<and> (\<forall>k. filter (\<lambda>p. price_replace (Precio_Oferta p) = k) out
                  = filter (\<lambda>p. price_replace (Precio_Oferta p) = k)
                      (filter (filter_callback price_match st) raw))"
    using assms srt stb by (simp add: getFilteredProducts_part000_def)
qed

lemma price_examples:
  "price_replace ''Consultar'' = Fin 0" "price_match ''Consultar'' = Fin 0"
  "price_replace ''S/ 12.50'' = Fin (25 / 2)" "price_match ''S/ 12.50'' = Fin (25 / 2)"
  "price_replace ''S/12'' = Fin 12" "price_match ''S/12'' = Fin 12"
  using to_double_int [of 12] to_double_half [of 25] by (simp_all add: eval_defs)

lemma price_replace_tens:
  "price_replace ''S/ 10'' = Fin 10" "price_replace ''S/ 20'' = Fin 20"
  "price_replace ''S/ 30'' = Fin 30" "price_replace ''S/. 30'' = Fin 0"
  using to_double_int [of 10] to_double_int [of 20] to_double_int [of 30]
  by (simp_all add: eval_defs)

lemma price_match_tens:
  "price_match ''S/ 10'' = Fin 10" "price_match ''S/ 20'' = Fin 20"
  "price_match ''S/ 30'' = Fin 30" "price_match ''S/. 30'' = Fin 30"
  using to_double_int [of 10] to_double_int [of 20] to_double_int [of 30]
  by (simp_all add: eval_defs)

lemma to_double_tens:
  "to_double 10 = Fin 10" "to_double (- 10) = Fin (- 10)"
  "to_double 20 = Fin 20" "to_double (- 20) = Fin (- 20)"
  using to_double_int [of 10] to_double_int [of "- 10"] to_double_int [of 20]
    to_double_int [of "- 20"]
  by simp_all

lemma sorting_example:
  "getFilteredProducts_App
     (initial_state\<lparr>productos := Some [priced ''S/ 30'', priced ''S/ 10'', priced ''S/ 20'']\<rparr>)
   = Inr [priced ''S/ 10'', priced ''S/ 20'', priced ''S/ 30'']"
  "getFilteredProducts_part000
     (initial_state\<lparr>productos := Some [priced ''S/ 30'', priced ''S/ 10'', priced ''S/ 20'']\<rparr>)
   = Inr [priced ''S/ 10'', priced ''S/ 20'', priced ''S/ 30'']"
  by (simp_all add: getFilteredProducts_App_def getFilteredProducts_part000_def
      initial_state_def priced_def filter_callback_def hasOffer_def array_sort_def
      sort_callback_def price_replace_tens price_match_tens to_double_tens)

section \<open>Facts about the store\<close>



lemma scenario_in_store:
  "getFilteredProducts_ref price_replace scenario 0 [[dove, nivea]]
   = Some (1, [[dove, nivea], [nivea]])"
  by (simp add: getFilteredProducts_ref_def array_filter_ref_def array_sort_ref_def scenario_def
      initial_state_def dove_def nivea_def filter_callback_def hasOffer_def array_sort_def
      price_replace_S15 price_replace_S8)

section \<open>Facts about handleSubmit\<close>

lemma start_App_cases:
  "handleSubmit_start_App st = (e, st') \<Longrightarrow>
     (\<exists>m. e = Alert m \<and> st' = st)
   \<or> (\<exists>u t. e = AxiosGet u t \<and> isLoading st' \<and> productos st' = Some [] \<and> error st' = None)"
  by (auto simp: handleSubmit_start_App_def split: if_splits)

lemma start_part000_cases:
  "handleSubmit_start_part000 st = (e, st') \<Longrightarrow>
     (\<exists>m. e = Alert m \<and> st' = st)
   \<or> (\<exists>u t. e = AxiosGet u t \<and> isLoading st' \<and> productos st' = Some [] \<and> error st' = None)"
  by (auto simp: handleSubmit_start_part000_def split: if_splits)

lemma settle_App_loading: "\<not> isLoading (handleSubmit_settle_App r st)"
  by (cases r) (simp_all add: handleSubmit_settle_App_def)

lemma settle_part000_loading: "\<not> isLoading (handleSubmit_settle_part000 r st)"
  by (cases r) (simp_all add: handleSubmit_settle_part000_def)

lemma step_preserves_inv:
  assumes start: "\<And>st e st'. start st = (e, st') \<Longrightarrow>
       (\<exists>m. e = Alert m \<and> st' = st)
     \<or> (\<exists>u t. e = AxiosGet u t \<and> isLoading st' \<and> productos st' = Some [] \<and> error st' = None)"
    and settle: "\<And>r st. \<not> isLoading (settle r st)"
    and inv: "fetch_inv c"
  shows "fetch_inv (step start settle c ev)"
proof -
  obtain st inflight where c: "c = (st, inflight)" by (cases c)
  show ?thesis
  proof (cases ev)
    case Submit
    obtain e st' where s: "start st = (e, st')" by (cases "start st")
    from start [OF s] inv show ?thesis
      by (auto simp: c Submit s fetch_inv_def)
  next
    case (Settle r)
    with inv settle [of r st] show ?thesis
      by (auto simp: c fetch_inv_def)
  qed (use inv in \<open>auto simp: c fetch_inv_def\<close>)
qed

lemma foldl_step_inv:
  assumes start: "\<And>st e st'. start st = (e, st') \<Longrightarrow>
       (\<exists>m. e = Alert m \<and> st' = st)
     \<or> (\<exists>u t. e = AxiosGet u t \<and> isLoading st' \<and> productos st' = Some [] \<and> error st' = None)"
    and settle: "\<And>r st. \<not> isLoading (settle r st)"
  shows "fetch_inv c \<Longrightarrow> fetch_inv (foldl (step start settle) c es)"
proof (induction es arbitrary: c)
  case Nil
  then show ?case by simp
next
  case (Cons ev es)
  have "fetch_inv (step start settle c ev)"
    using start settle Cons.prems by (rule step_preserves_inv)
  then show ?case using Cons.IH by simp
qed

lemma initial_inv: "fetch_inv (initial_state, False)"
  by (simp add: fetch_inv_def initial_state_def)

lemma run_App_inv: "fetch_inv (run_App es)"
  unfolding run_App_def
  by (rule foldl_step_inv [OF start_App_cases settle_App_loading initial_inv])

lemma run_part000_inv: "fetch_inv (run_part000 es)"
  unfolding run_part000_def
  by (rule foldl_step_inv [OF start_part000_cases settle_part000_loading initial_inv])

lemma run_snoc: "run_App (es @ [ev]) = step handleSubmit_start_App handleSubmit_settle_App (run_App es) ev"
  "run_part000 (es @ [ev]) = step handleSubmit_start_part000 handleSubmit_settle_part000 (run_part000 es) ev"
  by (simp_all add: run_App_def run_part000_def)

lemma run_Submit:
  "run_App [Submit] = (initial_state\<lparr>isLoading := True\<rparr>, True)"
  "run_part000 [Submit] = (initial_state\<lparr>isLoading := True\<rparr>, True)"
  by (simp_all add: run_App_def run_part000_def initial_state_def handleSubmit_start_App_def
      handleSubmit_start_part000_def trim_def is_space_def)

lemma trim_empty_iff: "trim k = [] \<longleftrightarrow> (\<forall>c \<in> set k. is_space c)"
proof -
  have "trim k = [] \<longleftrightarrow> (\<forall>c \<in> set (dropWhile is_space k). is_space c)"
    by (simp add: trim_def dropWhile_eq_Nil_conv)
  also have "\<dots> \<longleftrightarrow> dropWhile is_space k = []"
  proof
    assume a: "\<forall>c \<in> set (dropWhile is_space k). is_space c"
    show "dropWhile is_space k = []"
    proof (rule ccontr)
      assume ne: "dropWhile is_space k \<noteq> []"
      then have "\<not> is_space (hd (dropWhile is_space k))" by (rule hd_dropWhile)
      moreover have "hd (dropWhile is_space k) \<in> set (dropWhile is_space k)" using ne by simp
      ultimately show False using a by blast
    qed
  next
    assume e: "dropWhile is_space k = []"
    show "\<forall>c \<in> set (dropWhile is_space k). is_space c" unfolding e by simp
  qed
  also have "\<dots> \<longleftrightarrow> (\<forall>c \<in> set k. is_space c)" by (simp add: dropWhile_eq_Nil_conv)
  finally show ?thesis .
qed

lemma part000_rejects_blank_keyword:
  assumes "\<forall>c \<in> set (keyword st). is_space c"
  shows "handleSubmit_start_part000 st = (Alert alert_message, st)"
    and "step handleSubmit_start_part000 handleSubmit_settle_part000 (st, inflight) Submit
         = (st, inflight)"
  using assms by (simp_all add: handleSubmit_start_part000_def trim_empty_iff)

lemma App_rejects_empty_keyword:
  assumes "keyword st = []"
  shows "handleSubmit_start_App st = (Alert alert_message, st)"
  using assms by (simp add: handleSubmit_start_App_def)

lemma part000_success_sets_list:
  "productos (handleSubmit_settle_part000 (Resolved None) st) = Some []"
  "productos (handleSubmit_settle_part000 (Resolved (Some ps)) st) = Some ps"
  "error (handleSubmit_settle_part000 (Resolved d) st) = error st"
  "\<not> isLoading (handleSubmit_settle_part000 (Resolved d) st)"
  by (simp_all add: handleSubmit_settle_part000_def)

lemma show_nat_500: "show_nat 500 = ''500''"
  by (simp add: show_nat.simps [of 500] show_nat.simps [of 50] show_nat.simps [of 5]
      digit_char_def)

lemma str_includes_prefix: "str_includes (t @ post) t"
proof (cases "t @ post")
  case Nil
  then show ?thesis by simp
next
  case (Cons a l)
  have "take (length t) (t @ post) = t" by simp
  with Cons show ?thesis by (metis str_includes.simps(2))
qed

lemma str_includes_append: "str_includes (pre @ t @ post) t"
  by (induction pre) (simp_all add: str_includes_prefix)

lemma part000_classifies_failures:
  "error (handleSubmit_settle_part000 (Rejected (Some ''ECONNABORTED'') response) st)
     = Some (''La b'' @ [CHR 0xFA] @ ''squeda tard'' @ [CHR 0xF3]
             @ '' demasiado y fue cancelada (Timeout). Intenta de nuevo.'')"
  "code \<noteq> Some ''ECONNABORTED'' \<Longrightarrow>
   error (handleSubmit_settle_part000 (Rejected code (Some status)) st)
     = Some (''Error del servidor ('' @ show_nat status
             @ ''). Intenta de nuevo m'' @ [CHR 0xE1] @ ''s tarde.'')"
  "code \<noteq> Some ''ECONNABORTED'' \<Longrightarrow>
   error (handleSubmit_settle_part000 (Rejected code None) st)
     = Some (''No se pudo conectar al backend. El servicio puede estar ''
             @ ''inactivo o tardando mucho.'')"
  "\<not> isLoading (handleSubmit_settle_part000 (Rejected code response) st)"
  "productos (handleSubmit_settle_part000 (Rejected code response) st) = productos st"
  by (simp_all add: handleSubmit_settle_part000_def)

lemma part000_server_error_carries_status:
  assumes "code \<noteq> Some ''ECONNABORTED''"
  shows "\<exists>m. error (handleSubmit_settle_part000 (Rejected code (Some status)) st) = Some m
             \<and> str_includes m (show_nat status)"
proof -
  have "str_includes (''Error del servidor ('' @ show_nat status
             @ ''). Intenta de nuevo m'' @ [CHR 0xE1] @ ''s tarde.'') (show_nat status)"
    by (rule str_includes_append)
  then show ?thesis using assms by (simp add: handleSubmit_settle_part000_def)
qed

section \<open>The claims\<close>

text \<open>
  C1. The extracted price is the first numeric token of \<open>Precio_Oferta\<close>, and \<open>0\<close> when
  there is none. The filter of part_000 takes the leftmost match of \<open>\d+(\.\d+)?\<close>; the
  filter of src/App.tsx removes the first \<open>S/\<close> and parses what is left, so an offer
  price written \<open>S/. 12.50\<close> has the price \<open>0\<close> there, although its first numeric token is
  \<open>12.50\<close>.
\<close>

theorem App_price_is_not_first_numeric_token:
  "price_replace ''S/. 12.50'' = Fin 0
   \<and> match_number ''S/. 12.50'' = Some ''12.50''
   \<and> token_value ''12.50'' = 25 / 2
   \<and> price_match ''S/. 12.50'' = Fin (25 / 2)"
  using to_double_half [of 25] by (simp add: eval_defs token_value_def)

text \<open>
  C2. The output is sorted ascending by the price that the \<open>priceFilter\<close> test uses, ties
  in raw order. In part_000 the comparator still parses with the \<open>S/\<close> replacement while
  the filter uses the numeric token: two products priced \<open>S/. 30\<close> and \<open>S/ 10\<close> pass the
  filter with the prices \<open>30\<close> and \<open>10\<close> and are returned in that order.
\<close>

theorem part000_sort_ignores_filter_price:
  "getFilteredProducts_part000 (initial_state\<lparr>productos := Some sort_failing_input\<rparr>)
   = Inr sort_failing_input
   \<and> map (\<lambda>p. price_match (Precio_Oferta p)) sort_failing_input = [Fin 30, Fin 10]
   \<and> map (\<lambda>p. price_replace (Precio_Oferta p)) sort_failing_input = [Fin 0, Fin 10]
   \<and> \<not> sorted_wrt (\<lambda>a b. js_le (price_match (Precio_Oferta a)) (price_match (Precio_Oferta b)))
          sort_failing_input"
  by (simp add: getFilteredProducts_part000_def initial_state_def sort_failing_input_def
      filter_callback_def hasOffer_def array_sort_def sort_callback_def price_replace_tens
      price_match_tens to_double_tens)

text \<open>
  C3. A product is in the output iff it is in the raw list and passes every active
  filter, the price bound being on the price of step 1. part_000 does so for every raw
  list and criteria. In src/App.tsx the bound is tested on the price after the \<open>S/\<close>
  replacement: a product priced \<open>S/. 500\<close>, whose first numeric token is \<open>500\<close>, has the
  price \<open>0\<close> there and stays in the output under the bound \<open>300\<close>.
\<close>

theorem App_keeps_product_over_max_price:
  "priceFilter initial_state = Fin 300
   \<and> match_number ''S/. 500'' = Some ''500'' \<and> token_value ''500'' = 500
   \<and> \<not> js_le (Fin 500) (Fin 300)
   \<and> getFilteredProducts_App (initial_state\<lparr>productos := Some [priced ''S/. 500'']\<rparr>)
       = Inr [priced ''S/. 500'']
   \<and> getFilteredProducts_part000 (initial_state\<lparr>productos := Some [priced ''S/. 500'']\<rparr>)
       = Inr []"
  by (simp add: getFilteredProducts_App_def getFilteredProducts_part000_def initial_state_def
      priced_def filter_callback_def hasOffer_def array_sort_def price_500 token_value_def
      match_number_at_def is_digit_def digits_val_def digit_val_def Let_def)

text \<open>
  C4. A product has an offer iff its \<open>Precio_Regular\<close> is not the string
  \<open>No disponible\<close>, compared exactly. With \<open>offersFilter\<close> set, a product with that
  regular price is not in the output, and a product with any other regular price is in
  the output exactly when it is in the output without the offers filter.
\<close>

theorem offer_detection:
  assumes "productos st = Some raw" and "offersFilter st"
  shows "(hasOffer p \<longleftrightarrow> Precio_Regular p \<noteq> ''No disponible'')
       \<and> (\<exists>out out'. getFilteredProducts_App st = Inr out
             \<and> getFilteredProducts_App (st\<lparr>offersFilter := False\<rparr>) = Inr out'
             \<and> (Precio_Regular p = ''No disponible'' \<longrightarrow> p \<notin> set out)
             \<and> (Precio_Regular p \<noteq> ''No disponible'' \<longrightarrow> (p \<in> set out \<longleftrightarrow> p \<in> set out')))
       \<and> (\<exists>out out'. getFilteredProducts_part000 st = Inr out
             \<and> getFilteredProducts_part000 (st\<lparr>offersFilter := False\<rparr>) = Inr out'
             \<and> (Precio_Regular p = ''No disponible'' \<longrightarrow> p \<notin> set out)
             \<and> (Precio_Regular p \<noteq> ''No disponible'' \<longrightarrow> (p \<in> set out \<longleftrightarrow> p \<in> set out')))"
  using assms
  by (auto simp: getFilteredProducts_App_def getFilteredProducts_part000_def set_array_sort
      filter_callback_def hasOffer_def Let_def)

theorem offer_detection_witness:
  "productos (scenario\<lparr>priceFilter := Fin 15, offersFilter := True\<rparr>) = Some [dove, nivea]
   \<and> offersFilter (scenario\<lparr>priceFilter := Fin 15, offersFilter := True\<rparr>)
   \<and> Precio_Regular nivea = ''No disponible'' \<and> \<not> hasOffer nivea
   \<and> Precio_Regular dove \<noteq> ''No disponible'' \<and> hasOffer dove
   \<and> hasOffer (nivea\<lparr>Precio_Regular := ''no disponible''\<rparr>)
   \<and> (\<exists>out out'.
         getFilteredProducts_App (scenario\<lparr>priceFilter := Fin 15, offersFilter := True\<rparr>)
           = Inr out
       \<and> getFilteredProducts_App
            ((scenario\<lparr>priceFilter := Fin 15, offersFilter := True\<rparr>)\<lparr>offersFilter := False\<rparr>)
           = Inr out'
       \<and> nivea \<notin> set out \<and> (dove \<in> set out \<longleftrightarrow> dove \<in> set out'))"
proof -
  let ?st = "scenario\<lparr>priceFilter := Fin 15, offersFilter := True\<rparr>"
  have h1: "productos ?st = Some [dove, nivea]" by (simp add: scenario_def initial_state_def)
  have h2: "offersFilter ?st" by simp
  have n: "Precio_Regular nivea = ''No disponible''" by (simp add: nivea_def)
  have d: "Precio_Regular dove \<noteq> ''No disponible''" by (simp add: dove_def)
  have l: "Precio_Regular (nivea\<lparr>Precio_Regular := ''no disponible''\<rparr>) \<noteq> ''No disponible''"
    by simp
  from offer_detection [OF h1 h2, of nivea] n
  obtain out out' where o: "getFilteredProducts_App ?st = Inr out"
      "getFilteredProducts_App (?st\<lparr>offersFilter := False\<rparr>) = Inr out'"
      "nivea \<notin> set out" and hn: "\<not> hasOffer nivea"
    by blast
  from offer_detection [OF h1 h2, of dove] d o(1,2)
  have dd: "dove \<in> set out \<longleftrightarrow> dove \<in> set out'" and hd: "hasOffer dove"
    by auto
  from offer_detection [OF h1 h2, of "nivea\<lparr>Precio_Regular := ''no disponible''\<rparr>"] l
  have hl: "hasOffer (nivea\<lparr>Precio_Regular := ''no disponible''\<rparr>)" by blast
  from h1 h2 n d hn hd hl o dd show ?thesis by blast
qed

text \<open>
  C5. Submitting a keyword that is empty or only whitespace is rejected before any
  request, with the state unchanged. part_000 tests \<open>keyword.trim()\<close>; src/App.tsx tests
  \<open>keyword\<close> alone, so a keyword of two spaces starts the request and resets the state.
\<close>

theorem App_blank_keyword_is_sent:
  "handleSubmit_start_App (initial_state\<lparr>keyword := ''  ''\<rparr>)
   = (AxiosGet (API_URL_App @ ''/buscar_productos?keyword=%20%20'') 300000,
      initial_state\<lparr>keyword := ''  '', isLoading := True, productos := Some [], error := None\<rparr>)
   \<and> handleSubmit_start_part000 (initial_state\<lparr>keyword := ''  ''\<rparr>)
     = (Alert alert_message, initial_state\<lparr>keyword := ''  ''\<rparr>)"
  by (simp add: handleSubmit_start_App_def handleSubmit_start_part000_def initial_state_def
      encodeURIComponent_def uri_unreserved_def percent_def digit_char_def trim_def is_space_def
      Let_def)

text \<open>
  C6. A success response without the \<open>data\<close> field makes the raw list empty; with the
  field, the raw list is that array. part_000 stores \<open>response.data.data || []\<close>;
  src/App.tsx stores \<open>response.data.data\<close>, so the raw list becomes \<open>undefined\<close> and the
  next call of \<open>getFilteredProducts\<close> throws.
\<close>

theorem App_missing_field_is_undefined:
  "productos (handleSubmit_settle_App (Resolved None) st) = None
   \<and> getFilteredProducts_App (handleSubmit_settle_App (Resolved None) st) = Inl TypeError
   \<and> productos (handleSubmit_settle_App (Resolved (Some ps)) st) = Some ps
   \<and> productos (handleSubmit_settle_part000 (Resolved None) st) = Some []"
  by (simp add: handleSubmit_settle_App_def handleSubmit_settle_part000_def
      getFilteredProducts_App_def)

text \<open>
  C7. A failed fetch is classified: a timeout, a response with a failure status (the
  message carries the status), or no response; the loading flag is cleared. part_000 has
  the three branches; src/App.tsx has only the timeout and one message for the rest, so
  a response with status 500 gives the same message as no response, without the status.
\<close>

theorem App_server_error_has_no_status:
  "error (handleSubmit_settle_App (Rejected None (Some 500)) initial_state)
     = Some ''Error al cargar los datos. Revisa la consola.''
   \<and> error (handleSubmit_settle_App (Rejected None (Some 500)) initial_state)
     = error (handleSubmit_settle_App (Rejected None None) initial_state)
   \<and> \<not> str_includes ''Error al cargar los datos. Revisa la consola.'' (show_nat 500)
   \<and> error (handleSubmit_settle_part000 (Rejected None (Some 500)) initial_state)
     = Some (''Error del servidor (500). Intenta de nuevo m'' @ [CHR 0xE1] @ ''s tarde.'')"
  by (simp add: handleSubmit_settle_App_def handleSubmit_settle_part000_def show_nat_500)

text \<open>
  C8. Whatever has happened to the component: while the loading flag is set the raw list
  is empty; when the request in flight fails, the loading flag is cleared, the raw list
  is empty and no request is in flight; and a submission with a valid keyword empties
  the raw list in the same update that sets the loading flag, before the request.
\<close>

theorem failed_fetch_is_terminal:
  "(isLoading (fst (run_App es)) \<longrightarrow> productos (fst (run_App es)) = Some [])
   \<and> (snd (run_App es) \<longrightarrow>
        \<not> isLoading (fst (run_App (es @ [Settle (Rejected code response)])))
      \<and> productos (fst (run_App (es @ [Settle (Rejected code response)]))) = Some []
      \<and> \<not> snd (run_App (es @ [Settle (Rejected code response)])))
   \<and> (keyword st \<noteq> [] \<longrightarrow>
        (\<exists>url. handleSubmit_start_App st
           = (AxiosGet url 300000, st\<lparr>isLoading := True, productos := Some [], error := None\<rparr>)))
   \<and> (isLoading (fst (run_part000 es)) \<longrightarrow> productos (fst (run_part000 es)) = Some [])
   \<and> (snd (run_part000 es) \<longrightarrow>
        \<not> isLoading (fst (run_part000 (es @ [Settle (Rejected code response)])))
      \<and> productos (fst (run_part000 (es @ [Settle (Rejected code response)]))) = Some []
      \<and> \<not> snd (run_part000 (es @ [Settle (Rejected code response)])))
   \<and> (trim (keyword st) \<noteq> [] \<longrightarrow>
        (\<exists>url. handleSubmit_start_part000 st
           = (AxiosGet url 300000, st\<lparr>isLoading := True, productos := Some [], error := None\<rparr>)))"
proof -
  obtain sa ia where a: "run_App es = (sa, ia)" by (cases "run_App es")
  obtain sp ip where p: "run_part000 es = (sp, ip)" by (cases "run_part000 es")
  have inva: "fetch_inv (sa, ia)" using run_App_inv [of es] by (simp add: a)
  have invp: "fetch_inv (sp, ip)" using run_part000_inv [of es] by (simp add: p)
  show ?thesis
    using inva invp
    by (simp add: run_snoc a p fetch_inv_def handleSubmit_settle_App_def
        handleSubmit_settle_part000_def handleSubmit_start_App_def
        handleSubmit_start_part000_def)
qed

theorem failed_fetch_is_terminal_witness:
  "isLoading (fst (run_App [Submit])) \<and> snd (run_App [Submit])
   \<and> keyword initial_state \<noteq> []
   \<and> isLoading (fst (run_part000 [Submit])) \<and> snd (run_part000 [Submit])
   \<and> trim (keyword initial_state) \<noteq> []
   \<and> productos (fst (run_App [Submit])) = Some []
   \<and> \<not> isLoading (fst (run_App ([Submit] @ [Settle (Rejected None (Some 500))])))
   \<and> productos (fst (run_App ([Submit] @ [Settle (Rejected None (Some 500))]))) = Some []
   \<and> productos (fst (run_part000 [Submit])) = Some []
   \<and> \<not> isLoading (fst (run_part000 ([Submit] @ [Settle (Rejected None (Some 500))])))
   \<and> productos (fst (run_part000 ([Submit] @ [Settle (Rejected None (Some 500))]))) = Some []"
proof -
  have h: "isLoading (fst (run_App [Submit]))" "snd (run_App [Submit])"
    "keyword initial_state \<noteq> []"
    "isLoading (fst (run_part000 [Submit]))" "snd (run_part000 [Submit])"
    "trim (keyword initial_state) \<noteq> []"
    by (simp_all add: run_Submit initial_state_def trim_def is_space_def)
  from failed_fetch_is_terminal [of "[Submit]" None "Some 500" initial_state] h
  show ?thesis by blast
qed



text \<open>
  C10. Every product of the output is an element of the raw list, no product occurs more
  often in the output than in the raw list, and the output is not longer than the raw
  list.
\<close>

theorem projector_output_within_input:
  assumes "productos st = Some raw"
  shows "(\<exists>out. getFilteredProducts_App st = Inr out
            \<and> set out \<subseteq> set raw \<and> (\<forall>p. count_list out p \<le> count_list raw p)
            \<and> length out \<le> length raw)
       \<and> (\<exists>out. getFilteredProducts_part000 st = Inr out
            \<and> set out \<subseteq> set raw \<and> (\<forall>p. count_list out p \<le> count_list raw p)
            \<and> length out \<le> length raw)"
proof -
  have *: "set (array_sort cmp (filter f raw)) \<subseteq> set raw
           \<and> (\<forall>p. count_list (array_sort cmp (filter f raw)) p \<le> count_list raw p)
           \<and> length (array_sort cmp (filter f raw)) \<le> length raw"
    for cmp :: "Producto \<Rightarrow> Producto \<Rightarrow> jsnum" and f
  proof -
    have m: "mset (array_sort cmp (filter f raw)) \<subseteq># mset raw"
      by (simp add: mset_array_sort)
    have "count (mset (array_sort cmp (filter f raw))) p \<le> count (mset raw) p" for p
      using m by (rule mset_subset_eq_count)
    then have "\<forall>p. count_list (array_sort cmp (filter f raw)) p \<le> count_list raw p"
      by (simp add: count_mset)
    then show ?thesis
      by (simp add: set_array_sort length_array_sort)
  qed
  show ?thesis
    using assms * [of sort_callback]
    by (simp add: getFilteredProducts_App_def getFilteredProducts_part000_def)
qed

theorem projector_output_within_input_witness:
  "productos scenario = Some [dove, nivea]
   \<and> (\<exists>out. getFilteredProducts_App scenario = Inr out
          \<and> set out \<subseteq> set [dove, nivea]
          \<and> (\<forall>p. count_list out p \<le> count_list [dove, nivea] p)
          \<and> length out \<le> length [dove, nivea])"
proof -
  have h: "productos scenario = Some [dove, nivea]" by (rule scenario_productos)
  from projector_output_within_input [OF h] h show ?thesis by blast
qed

end
